theory Spec2Isabelle
  imports Complex_Main "HOL-Library.Sublist"
begin

section \<open>Notes application: data model\<close>

text \<open>
  Strings of the program are sequences of UTF-16 code units. The record of a note is
  generic in the type of the characters. The store, the editor and the text service
  client are modelled on HOL strings (lists of 8-bit characters; the characters of a
  note are taken from that range). The search view, whose lower-casing depends on
  characters beyond that range, is modelled on lists of code units. Timestamps are the
  integer millisecond counts that \<^verbatim>\<open>Date.now()\<close> returns.
\<close>

text \<open>\<^verbatim>\<open>types.ts\<close>: interface Note.\<close>

record 'c note_of =
  note_id :: "'c list"
  title :: "'c list"
  content :: "'c list"
  tags :: "'c list list"
  createdAt :: int
  updatedAt :: int

type_synonym Note = "char note_of"

type_synonym code_unit = nat

type_synonym Note16 = "code_unit note_of"

text \<open>\<^verbatim>\<open>types.ts\<close>: type AIActionType.\<close>

datatype AIActionType = summarize | fix_grammar | generate_tags | elaborate | generate_title

text \<open>
  What a call can throw: an \<^verbatim>\<open>Error\<close> with its message, the \<^verbatim>\<open>SyntaxError\<close> of
  \<^verbatim>\<open>JSON.parse\<close>, or the rejection of a request by the provider.
\<close>

datatype error = Error string | SyntaxError | Rejected string

section \<open>String primitives of the platform\<close>

text \<open>
  \<^verbatim>\<open>String.prototype.trim\<close>: white space and line terminators of the modelled range
  are removed from both ends.
\<close>

definition is_space :: "char \<Rightarrow> bool" where
  "is_space c =
     (let k = (of_char c :: nat) in (9 \<le> k \<and> k \<le> 13) \<or> k = 32 \<or> k = 160)"

definition trim :: "string \<Rightarrow> string" where
  "trim s = rev (dropWhile is_space (rev (dropWhile is_space s)))"

text \<open>
  \<^verbatim>\<open>String.prototype.substring\<close>: both positions are clamped to the length and
  swapped when the first exceeds the second; with one argument the string runs to its end.
\<close>

definition substring :: "string \<Rightarrow> nat \<Rightarrow> nat \<Rightarrow> string" where
  "substring s a b =
     (let a' = min a (length s); b' = min b (length s)
      in take (max a' b' - min a' b') (drop (min a' b') s))"

definition substring_from :: "string \<Rightarrow> nat \<Rightarrow> string" where
  "substring_from s a = drop (min a (length s)) s"

text \<open>
  \<^verbatim>\<open>String.prototype.includes\<close>: scan the positions of the string from the left and
  compare the search string with the characters found there.
\<close>

fun startsAt :: "'a list \<Rightarrow> 'a list \<Rightarrow> bool" where
  "startsAt [] s = True"
| "startsAt (q # qs) [] = False"
| "startsAt (q # qs) (c # cs) = (q = c \<and> startsAt qs cs)"

fun includes_js :: "'a list \<Rightarrow> 'a list \<Rightarrow> bool" where
  "includes_js [] q = (q = [])"
| "includes_js (c # cs) q = (startsAt q (c # cs) \<or> includes_js cs q)"

subsection \<open>Lower case on code units\<close>

text \<open>
  \<^verbatim>\<open>String.prototype.toLowerCase\<close> follows the default case conversion of Unicode. It
  is not a map on characters: the capital sigma U+03A3 becomes the final sigma U+03C2
  when a cased letter stands before it (case-ignorable characters between them do not
  count) and none stands after it, and the small sigma U+03C3 otherwise; the capital I
  with dot above U+0130 becomes the two code units U+0069 U+0307.

  The model covers the characters U+0000 to U+00FF, U+0130, U+0307 and the Greek range
  U+0384 to U+03CE: \<open>cased\<close> and \<open>case_ignorable\<close> are the Unicode properties
  Cased and Case_Ignorable on these characters, \<open>lower_unit\<close> is their lower-case
  mapping. Every other code unit is outside the model: it is kept as it is and counts as
  neither cased nor case-ignorable.
\<close>

definition cased :: "code_unit \<Rightarrow> bool" where
  "cased c =
     ((0x41 \<le> c \<and> c \<le> 0x5A) \<or> (0x61 \<le> c \<and> c \<le> 0x7A)
      \<or> c = 0xAA \<or> c = 0xB5 \<or> c = 0xBA
      \<or> (0xC0 \<le> c \<and> c \<le> 0xD6) \<or> (0xD8 \<le> c \<and> c \<le> 0xF6) \<or> (0xF8 \<le> c \<and> c \<le> 0xFF)
      \<or> c = 0x130
      \<or> c = 0x386 \<or> (0x388 \<le> c \<and> c \<le> 0x38A) \<or> c = 0x38C
      \<or> (0x38E \<le> c \<and> c \<le> 0x3A1) \<or> (0x3A3 \<le> c \<and> c \<le> 0x3CE))"

definition case_ignorable :: "code_unit \<Rightarrow> bool" where
  "case_ignorable c =
     (c = 0x27 \<or> c = 0x2E \<or> c = 0x3A \<or> c = 0x5E \<or> c = 0x60
      \<or> c = 0xA8 \<or> c = 0xAD \<or> c = 0xAF \<or> c = 0xB4 \<or> c = 0xB7 \<or> c = 0xB8
      \<or> c = 0x307 \<or> c = 0x384 \<or> c = 0x385 \<or> c = 0x387)"

text \<open>
  Going away from a position (the nearest code unit first): a cased letter is met after
  case-ignorable characters only.
\<close>

fun cased_ahead :: "code_unit list \<Rightarrow> bool" where
  "cased_ahead [] = False"
| "cased_ahead (c # cs) = (cased c \<or> (case_ignorable c \<and> cased_ahead cs))"

definition lower_unit :: "code_unit \<Rightarrow> code_unit list" where
  "lower_unit c =
     (if (0x41 \<le> c \<and> c \<le> 0x5A) \<or> (0xC0 \<le> c \<and> c \<le> 0xDE \<and> c \<noteq> 0xD7) then [c + 0x20]
      else if c = 0x130 then [0x69, 0x307]
      else if c = 0x386 then [0x3AC]
      else if 0x388 \<le> c \<and> c \<le> 0x38A then [c + 0x25]
      else if c = 0x38C then [0x3CC]
      else if c = 0x38E \<or> c = 0x38F then [c + 0x3F]
      else if (0x391 \<le> c \<and> c \<le> 0x3A1) \<or> (0x3A3 \<le> c \<and> c \<le> 0x3AB) then [c + 0x20]
      else [c])"

text \<open>
  \<open>lower_from before s\<close> lower-cases \<open>s\<close>, where \<open>before\<close> holds the code units
  that stand before it in the string, the nearest first.
\<close>

fun lower_from :: "code_unit list \<Rightarrow> code_unit list \<Rightarrow> code_unit list" where
  "lower_from before [] = []"
| "lower_from before (c # cs) =
     (if c = 0x3A3
      then (if cased_ahead before \<and> \<not> cased_ahead cs then [0x3C2] else [0x3C3])
      else lower_unit c)
     @ lower_from (c # before) cs"

definition toLowerCase :: "code_unit list \<Rightarrow> code_unit list" where
  "toLowerCase s = lower_from [] s"

text \<open>
  On the characters below U+0100 the lower-casing is a map on characters: the letters
  A-Z and the accented capitals U+00C0 to U+00DE (without the multiplication sign
  U+00D7) move up by 32.
\<close>

definition latin1 :: "code_unit list \<Rightarrow> bool" where
  "latin1 s = list_all (\<lambda>c. c < 0x100) s"

definition lower_latin1 :: "code_unit \<Rightarrow> code_unit" where
  "lower_latin1 c =
     (if (0x41 \<le> c \<and> c \<le> 0x5A) \<or> (0xC0 \<le> c \<and> c \<le> 0xDE \<and> c \<noteq> 0xD7) then c + 0x20 else c)"

text \<open>The code units of a string of 8-bit characters.\<close>

definition units :: "string \<Rightarrow> code_unit list" where
  "units s = map of_char s"

section \<open>JSON text of the platform\<close>

text \<open>
  The values that \<^verbatim>\<open>JSON.parse\<close> builds. A number is kept as the exact rational its
  numeral denotes (rounding to a double is not modelled); an object is the list of its
  properties in the order the platform enumerates them.
\<close>

datatype jsvalue =
    JNull
  | JBool bool
  | JNum rat
  | JStr string
  | JArr "jsvalue list"
  | JObj "(string \<times> jsvalue) list"

subsection \<open>Serialization\<close>

definition hexdigit :: "nat \<Rightarrow> char" where
  "hexdigit d = (if d < 10 then char_of (48 + d) else char_of (87 + d))"

text \<open>
  \<^verbatim>\<open>QuoteJSONString\<close>: the double quote and the backslash are escaped, the control
  characters have their short escapes or the form \<^verbatim>\<open>\u00xx\<close>, every other character
  stands for itself.
\<close>

definition quote_char :: "char \<Rightarrow> string" where
  "quote_char c =
     (let k = (of_char c :: nat)
      in if k = 34 then [CHR 0x5C, CHR 0x22]
         else if k = 92 then [CHR 0x5C, CHR 0x5C]
         else if k = 8 then [CHR 0x5C, CHR ''b'']
         else if k = 12 then [CHR 0x5C, CHR ''f'']
         else if k = 10 then [CHR 0x5C, CHR ''n'']
         else if k = 13 then [CHR 0x5C, CHR ''r'']
         else if k = 9 then [CHR 0x5C, CHR ''t'']
         else if k < 32 then [CHR 0x5C, CHR ''u'', CHR ''0'', CHR ''0'', hexdigit (k div 16), hexdigit (k mod 16)]
         else [c])"

definition quote :: "string \<Rightarrow> string" where
  "quote s = CHR 0x22 # concat (map quote_char s) @ [CHR 0x22]"

fun show_nat :: "nat \<Rightarrow> string" where
  "show_nat n = (if n < 10 then [char_of (48 + n)] else show_nat (n div 10) @ [char_of (48 + n mod 10)])"

declare show_nat.simps [simp del]

definition show_int :: "int \<Rightarrow> string" where
  "show_int i = (if i < 0 then CHR ''-'' # show_nat (nat (- i)) else show_nat (nat i))"

fun commas :: "string list \<Rightarrow> string" where
  "commas [] = []"
| "commas [x] = x"
| "commas (x # y # r) = x @ CHR '','' # commas (y # r)"

text \<open>\<^verbatim>\<open>JSON.stringify\<close> at the type \<^verbatim>\<open>string[]\<close>.\<close>

definition stringify_strings :: "string list \<Rightarrow> string" where
  "stringify_strings ts = CHR ''['' # commas (map quote ts) @ [CHR '']'']"

text \<open>
  \<^verbatim>\<open>JSON.stringify\<close> at the type \<^verbatim>\<open>Note\<close>: the properties in the order in which
  every note of the program is built (the object literals of \<^verbatim>\<open>INITIAL_NOTES\<close> and
  \<^verbatim>\<open>createNote\<close>; the spread of \<^verbatim>\<open>handleSave\<close> keeps the order).
\<close>

definition stringify_note :: "Note \<Rightarrow> string" where
  "stringify_note n =
     CHR ''{'' # quote ''id'' @ CHR '':'' # quote (note_id n)
     @ CHR '','' # quote ''title'' @ CHR '':'' # quote (title n)
     @ CHR '','' # quote ''content'' @ CHR '':'' # quote (content n)
     @ CHR '','' # quote ''tags'' @ CHR '':'' # stringify_strings (tags n)
     @ CHR '','' # quote ''createdAt'' @ CHR '':'' # show_int (createdAt n)
     @ CHR '','' # quote ''updatedAt'' @ CHR '':'' # show_int (updatedAt n)
     @ [CHR ''}'']"

text \<open>\<^verbatim>\<open>JSON.stringify\<close> at the type \<^verbatim>\<open>Note[]\<close>.\<close>

definition stringify_notes :: "Note list \<Rightarrow> string" where
  "stringify_notes ns = CHR ''['' # commas (map stringify_note ns) @ [CHR '']'']"

subsection \<open>Parsing\<close>

definition is_ws :: "char \<Rightarrow> bool" where
  "is_ws c = (c = CHR '' '' \<or> c = CHR 0x09 \<or> c = CHR 0x0A \<or> c = CHR 0x0D)"

definition skip_ws :: "string \<Rightarrow> string" where
  "skip_ws s = dropWhile is_ws s"

definition is_digit :: "char \<Rightarrow> bool" where
  "is_digit c = (48 \<le> (of_char c :: nat) \<and> (of_char c :: nat) \<le> 57)"

definition digits_val :: "string \<Rightarrow> nat" where
  "digits_val ds = foldl (\<lambda>a c. 10 * a + (of_char c - 48)) 0 ds"

definition hexval :: "char \<Rightarrow> nat option" where
  "hexval c =
     (let k = (of_char c :: nat)
      in if 48 \<le> k \<and> k \<le> 57 then Some (k - 48)
         else if 97 \<le> k \<and> k \<le> 102 then Some (k - 87)
         else if 65 \<le> k \<and> k \<le> 70 then Some (k - 55)
         else None)"

definition hex4 :: "char \<Rightarrow> char \<Rightarrow> char \<Rightarrow> char \<Rightarrow> nat option" where
  "hex4 a b c d =
     (case (hexval a, hexval b, hexval c, hexval d) of
        (Some x, Some y, Some z, Some w) \<Rightarrow> Some (((x * 16 + y) * 16 + z) * 16 + w)
      | _ \<Rightarrow> None)"

definition unescape :: "char \<Rightarrow> char option" where
  "unescape e =
     (if e = CHR 0x22 \<or> e = CHR 0x5C \<or> e = CHR ''/'' then Some e
      else if e = CHR ''b'' then Some (CHR 0x08)
      else if e = CHR ''f'' then Some (CHR 0x0C)
      else if e = CHR ''n'' then Some (CHR 0x0A)
      else if e = CHR ''r'' then Some (CHR 0x0D)
      else if e = CHR ''t'' then Some (CHR 0x09)
      else None)"

definition cons_fst :: "'a \<Rightarrow> ('a list \<times> 'b) option \<Rightarrow> ('a list \<times> 'b) option" where
  "cons_fst x r = (case r of None \<Rightarrow> None | Some (xs, rest) \<Rightarrow> Some (x # xs, rest))"

text \<open>
  The characters of a string literal after its opening quote, up to the closing quote.
  An escape \<^verbatim>\<open>\uXXXX\<close> that names a character outside the modelled range has no
  value in this model and is refused.
\<close>

fun parse_chars :: "string \<Rightarrow> (string \<times> string) option" where
  "parse_chars [] = None"
| "parse_chars (c # r) =
     (if c = CHR 0x22 then Some ([], r)
      else if c = CHR 0x5C then
        (case r of
           [] \<Rightarrow> None
         | e # r1 \<Rightarrow>
             if e = CHR ''u'' then
               (case r1 of
                  h1 # h2 # h3 # h4 # r2 \<Rightarrow>
                    (case hex4 h1 h2 h3 h4 of
                       None \<Rightarrow> None
                     | Some k \<Rightarrow> if k < 256 then cons_fst (char_of k) (parse_chars r2) else None)
                | _ \<Rightarrow> None)
             else (case unescape e of
                     None \<Rightarrow> None
                   | Some ch \<Rightarrow> cons_fst ch (parse_chars r1)))
      else if (of_char c :: nat) < 32 then None
      else cons_fst c (parse_chars r))"

definition parse_frac :: "string \<Rightarrow> (string \<times> string) option" where
  "parse_frac s =
     (case s of
        c # r \<Rightarrow>
          if c = CHR ''.''
          then (if takeWhile is_digit r = [] then None
                else Some (takeWhile is_digit r, dropWhile is_digit r))
          else Some ([], s)
      | [] \<Rightarrow> Some ([], s))"

definition parse_exp :: "string \<Rightarrow> (int \<times> string) option" where
  "parse_exp s =
     (case s of
        c # r \<Rightarrow>
          if c = CHR ''e'' \<or> c = CHR ''E''
          then (let (sg, r1) = (case r of
                                  [] \<Rightarrow> (1, r)
                                | d # t \<Rightarrow> if d = CHR ''+'' then (1, t)
                                           else if d = CHR ''-'' then (- 1, t) else (1, r))
                in if takeWhile is_digit r1 = [] then None
                   else Some (sg * int (digits_val (takeWhile is_digit r1)), dropWhile is_digit r1))
          else Some (0, s)
      | [] \<Rightarrow> Some (0, s))"

definition parse_number :: "string \<Rightarrow> (rat \<times> string) option" where
  "parse_number s =
     (let (neg, s1) = (case s of [] \<Rightarrow> (False, s) | c # r \<Rightarrow> if c = CHR ''-'' then (True, r) else (False, s));
          ip = takeWhile is_digit s1
      in if ip = [] \<or> (1 < length ip \<and> hd ip = CHR ''0'') then None
         else (case parse_frac (dropWhile is_digit s1) of
                 None \<Rightarrow> None
               | Some (fd, s3) \<Rightarrow>
                   (case parse_exp s3 of
                      None \<Rightarrow> None
                    | Some (ex, s4) \<Rightarrow>
                        Some ((if neg then - 1 else 1)
                              * (of_nat (digits_val (ip @ fd)) / 10 ^ length fd)
                              * (if 0 \<le> ex then 10 ^ nat ex else 1 / 10 ^ nat (- ex)),
                              s4))))"

fun strip_prefix :: "string \<Rightarrow> string \<Rightarrow> string option" where
  "strip_prefix [] s = Some s"
| "strip_prefix (p # ps) [] = None"
| "strip_prefix (p # ps) (c # cs) = (if p = c then strip_prefix ps cs else None)"

text \<open>
  The order of an object's properties: the keys that are array indices first, by their
  number, then the other keys in the order of their first occurrence; a key that occurs
  again replaces the value.
\<close>

definition is_array_index :: "string \<Rightarrow> bool" where
  "is_array_index k =
     (k \<noteq> [] \<and> list_all is_digit k \<and> (k = ''0'' \<or> hd k \<noteq> CHR ''0'')
      \<and> int (digits_val k) < 4294967295)"

fun obj_put :: "string \<Rightarrow> jsvalue \<Rightarrow> (string \<times> jsvalue) list \<Rightarrow> (string \<times> jsvalue) list" where
  "obj_put k v [] = [(k, v)]"
| "obj_put k v ((k', v') # ms) =
     (if k = k' then (k, v) # ms
      else if is_array_index k \<and> (\<not> is_array_index k' \<or> digits_val k < digits_val k')
      then (k, v) # (k', v') # ms
      else (k', v') # obj_put k v ms)"

definition js_object :: "(string \<times> jsvalue) list \<Rightarrow> (string \<times> jsvalue) list" where
  "js_object ms = foldl (\<lambda>obj (k, v). obj_put k v obj) [] ms"

text \<open>
  The recursive descent over values, array elements and object members. The first
  argument bounds the depth of the calls; \<open>JSON_parse\<close> starts it above what a text of
  the given length can need.
\<close>

fun parse_value :: "nat \<Rightarrow> string \<Rightarrow> (jsvalue \<times> string) option"
  and parse_elements :: "nat \<Rightarrow> string \<Rightarrow> (jsvalue list \<times> string) option"
  and parse_members :: "nat \<Rightarrow> string \<Rightarrow> ((string \<times> jsvalue) list \<times> string) option" where
  "parse_value 0 s = None"
| "parse_value (Suc f) s =
     (case skip_ws s of
        [] \<Rightarrow> None
      | c # r \<Rightarrow>
          if c = CHR ''['' then
            (case skip_ws r of
               [] \<Rightarrow> None
             | d # r' \<Rightarrow>
                 if d = CHR '']'' then Some (JArr [], r')
                 else (case parse_elements f r of
                         None \<Rightarrow> None
                       | Some (vs, rest) \<Rightarrow> Some (JArr vs, rest)))
          else if c = CHR ''{'' then
            (case skip_ws r of
               [] \<Rightarrow> None
             | d # r' \<Rightarrow>
                 if d = CHR ''}'' then Some (JObj [], r')
                 else (case parse_members f r of
                         None \<Rightarrow> None
                       | Some (ms, rest) \<Rightarrow> Some (JObj (js_object ms), rest)))
          else if c = CHR 0x22 then
            (case parse_chars r of None \<Rightarrow> None | Some (str, rest) \<Rightarrow> Some (JStr str, rest))
          else if c = CHR ''t'' then
            (case strip_prefix ''rue'' r of None \<Rightarrow> None | Some rest \<Rightarrow> Some (JBool True, rest))
          else if c = CHR ''f'' then
            (case strip_prefix ''alse'' r of None \<Rightarrow> None | Some rest \<Rightarrow> Some (JBool False, rest))
          else if c = CHR ''n'' then
            (case strip_prefix ''ull'' r of None \<Rightarrow> None | Some rest \<Rightarrow> Some (JNull, rest))
          else (case parse_number (c # r) of None \<Rightarrow> None | Some (x, rest) \<Rightarrow> Some (JNum x, rest)))"
| "parse_elements 0 s = None"
| "parse_elements (Suc f) s =
     (case parse_value f s of
        None \<Rightarrow> None
      | Some (v, r) \<Rightarrow>
          (case skip_ws r of
             [] \<Rightarrow> None
           | c # r' \<Rightarrow>
               if c = CHR '','' then cons_fst v (parse_elements f r')
               else if c = CHR '']'' then Some ([v], r')
               else None))"
| "parse_members 0 s = None"
| "parse_members (Suc f) s =
     (case skip_ws s of
        [] \<Rightarrow> None
      | q # r \<Rightarrow>
          if q = CHR 0x22 then
            (case parse_chars r of
               None \<Rightarrow> None
             | Some (k, r1) \<Rightarrow>
                 (case skip_ws r1 of
                    [] \<Rightarrow> None
                  | c # r2 \<Rightarrow>
                      if c = CHR '':'' then
                        (case parse_value f r2 of
                           None \<Rightarrow> None
                         | Some (v, r3) \<Rightarrow>
                             (case skip_ws r3 of
                                [] \<Rightarrow> None
                              | d # r4 \<Rightarrow>
                                  if d = CHR '','' then cons_fst (k, v) (parse_members f r4)
                                  else if d = CHR ''}'' then Some ([(k, v)], r4)
                                  else None))
                      else None))
          else None)"

text \<open>\<^verbatim>\<open>JSON.parse\<close>: \<open>None\<close> is the \<^verbatim>\<open>SyntaxError\<close> it throws.\<close>

definition JSON_parse :: "string \<Rightarrow> jsvalue option" where
  "JSON_parse s =
     (case parse_value (2 * length s + 2) s of
        None \<Rightarrow> None
      | Some (v, rest) \<Rightarrow> if skip_ws rest = [] then Some v else None)"

subsection \<open>Parsed values at the types of the program\<close>

fun as_string :: "jsvalue \<Rightarrow> string option" where
  "as_string (JStr s) = Some s"
| "as_string _ = None"

fun as_strings :: "jsvalue list \<Rightarrow> string list option" where
  "as_strings [] = Some []"
| "as_strings (v # vs) =
     (case (as_string v, as_strings vs) of (Some s, Some ss) \<Rightarrow> Some (s # ss) | _ \<Rightarrow> None)"

fun as_string_array :: "jsvalue \<Rightarrow> string list option" where
  "as_string_array (JArr vs) = as_strings vs"
| "as_string_array _ = None"

fun as_int :: "jsvalue \<Rightarrow> int option" where
  "as_int (JNum x) = (if x = of_int \<lfloor>x\<rfloor> then Some \<lfloor>x\<rfloor> else None)"
| "as_int _ = None"

definition json_of_note :: "Note \<Rightarrow> jsvalue" where
  "json_of_note n =
     JObj [(''id'', JStr (note_id n)), (''title'', JStr (title n)), (''content'', JStr (content n)),
           (''tags'', JArr (map JStr (tags n))),
           (''createdAt'', JNum (of_int (createdAt n))), (''updatedAt'', JNum (of_int (updatedAt n)))]"

definition json_of_notes :: "Note list \<Rightarrow> jsvalue" where
  "json_of_notes ns = JArr (map json_of_note ns)"

fun note_of_json :: "jsvalue \<Rightarrow> Note option" where
  "note_of_json (JObj ms) =
     (case (Option.bind (map_of ms ''id'') as_string, Option.bind (map_of ms ''title'') as_string,
            Option.bind (map_of ms ''content'') as_string, Option.bind (map_of ms ''tags'') as_string_array,
            Option.bind (map_of ms ''createdAt'') as_int, Option.bind (map_of ms ''updatedAt'') as_int) of
        (Some i, Some t, Some c, Some ts, Some ca, Some ua) \<Rightarrow>
          Some \<lparr>note_id = i, title = t, content = c, tags = ts, createdAt = ca, updatedAt = ua\<rparr>
      | _ \<Rightarrow> None)"
| "note_of_json _ = None"

fun notes_of_jsons :: "jsvalue list \<Rightarrow> Note list option" where
  "notes_of_jsons [] = Some []"
| "notes_of_jsons (v # vs) =
     (case (note_of_json v, notes_of_jsons vs) of (Some n, Some ns) \<Rightarrow> Some (n # ns) | _ \<Rightarrow> None)"

fun notes_of_json :: "jsvalue \<Rightarrow> Note list option" where
  "notes_of_json (JArr vs) = notes_of_jsons vs"
| "notes_of_json _ = None"

section \<open>Note store (App.tsx)\<close>

text \<open>The state cells of the \<^verbatim>\<open>App\<close> component.\<close>

record app =
  "notes" :: "Note list"
  activeNoteId :: "string option"
  searchQuery :: string
  isSidebarOpen :: bool

text \<open>
  \<^verbatim>\<open>INITIAL_NOTES\<close>, the collection of a first start; the clock is read when the
  module is loaded (both stamps of an object literal are taken as one reading).
\<close>

definition INITIAL_NOTES :: "int \<Rightarrow> Note list" where
  "INITIAL_NOTES now =
     [\<lparr>note_id = ''1'',
       title = ''Welcome to Nebula Notes'',
       content = ''This is a smart note-taking app powered by Gemini. '' @ [CHR 0x0A, CHR 0x0A]
                 @ ''Try selecting this text and using the '' @ [CHR 0x22] @ ''AI Tools'' @ [CHR 0x22]
                 @ '' button to summarize or expand it.'' @ [CHR 0x0A, CHR 0x0A]
                 @ ''You can also automatically generate tags based on your content.'',
       tags = [''welcome'', ''tutorial''],
       createdAt = now,
       updatedAt = now\<rparr>]"

text \<open>
  The local storage of the browser is a map from keys to strings. The initializer of the
  \<^verbatim>\<open>notes\<close> state reads the stored text and hands it to \<^verbatim>\<open>JSON.parse\<close> when it is
  truthy (present and not empty); its result is the parsed value as it is, at no checked
  type. The effect on \<^verbatim>\<open>notes\<close> writes the serialized collection back (a write that the
  browser refuses is not modelled).
\<close>

definition load :: "(string \<rightharpoonup> string) \<Rightarrow> int \<Rightarrow> error + jsvalue" where
  "load storage now =
     (case storage ''nebula-notes'' of
        None \<Rightarrow> Inr (json_of_notes (INITIAL_NOTES now))
      | Some saved \<Rightarrow>
          if saved = [] then Inr (json_of_notes (INITIAL_NOTES now))
          else (case JSON_parse saved of None \<Rightarrow> Inl SyntaxError | Some v \<Rightarrow> Inr v))"

definition persist :: "Note list \<Rightarrow> (string \<rightharpoonup> string) \<Rightarrow> (string \<rightharpoonup> string)" where
  "persist ns storage = storage(''nebula-notes'' \<mapsto> stringify_notes ns)"

text \<open>
  \<^verbatim>\<open>createNote\<close>: the fresh identifier (uuidv4), the clock reading and the window width
  are inputs; \<open>newNote\<close> is the note it builds.
\<close>

definition newNote :: "string \<Rightarrow> int \<Rightarrow> Note" where
  "newNote uuid now =
     \<lparr>note_id = uuid, title = [], content = [], tags = [], createdAt = now, updatedAt = now\<rparr>"

definition createNote :: "string \<Rightarrow> int \<Rightarrow> nat \<Rightarrow> app \<Rightarrow> app" where
  "createNote uuid now innerWidth s =
     s\<lparr>notes := newNote uuid now # notes s,
       activeNoteId := Some (note_id (newNote uuid now)),
       isSidebarOpen := (if innerWidth < 768 then False else isSidebarOpen s)\<rparr>"

definition updateNote :: "Note \<Rightarrow> app \<Rightarrow> app" where
  "updateNote updatedNote s =
     s\<lparr>notes := map (\<lambda>n. if note_id n = note_id updatedNote then updatedNote else n) (notes s)\<rparr>"

text \<open>
  \<^verbatim>\<open>deleteNote\<close>: filter the collection, and when the deleted identifier is the selected
  one, select the head of the new collection (or nothing when it is empty).
\<close>

definition deleteNote :: "string \<Rightarrow> app \<Rightarrow> app" where
  "deleteNote i s =
     (let newNotes = filter (\<lambda>n. note_id n \<noteq> i) (notes s)
      in if activeNoteId s = Some i
         then s\<lparr>notes := newNotes,
                activeNoteId := (case newNotes of [] \<Rightarrow> None | n # _ \<Rightarrow> Some (note_id n))\<rparr>
         else s\<lparr>notes := newNotes\<rparr>)"

section \<open>List and search view (Sidebar.tsx)\<close>

definition filteredNotes :: "Note16 list \<Rightarrow> code_unit list \<Rightarrow> Note16 list" where
  "filteredNotes ns query =
     (if query = [] then ns
      else let lowerQuery = toLowerCase query
           in filter (\<lambda>n. includes_js (toLowerCase (title n)) lowerQuery
                         \<or> includes_js (toLowerCase (content n)) lowerQuery
                         \<or> list_ex (\<lambda>tag. includes_js (toLowerCase tag) lowerQuery) (tags n)) ns)"

text \<open>
  The filter predicate in the words of the specification: the query occurs in a string
  as a case-insensitive substring when some contiguous part of the string equals the
  query up to the case of its letters. A part that is the query itself is such a part.
\<close>

definition occurs_in :: "'a list \<Rightarrow> 'a list \<Rightarrow> bool" where
  "occurs_in x s = (\<exists>pre post. s = pre @ x @ post)"

definition ci_substring :: "code_unit list \<Rightarrow> code_unit list \<Rightarrow> bool" where
  "ci_substring q s = (\<exists>pre u post. s = pre @ u @ post \<and> toLowerCase u = toLowerCase q)"

definition spec_matches :: "code_unit list \<Rightarrow> Note16 \<Rightarrow> bool" where
  "spec_matches q n =
     (ci_substring q (title n) \<or> ci_substring q (content n) \<or> (\<exists>t \<in> set (tags n). ci_substring q t))"

text \<open>
  The filter predicate as the program has it: the lower-cased query occurs in the
  lower-cased title, in the lower-cased content or in some lower-cased tag, where each
  string is lower-cased as a whole.
\<close>

definition lowered_matches :: "code_unit list \<Rightarrow> Note16 \<Rightarrow> bool" where
  "lowered_matches q n =
     (occurs_in (toLowerCase q) (toLowerCase (title n))
      \<or> occurs_in (toLowerCase q) (toLowerCase (content n))
      \<or> (\<exists>t \<in> set (tags n). occurs_in (toLowerCase q) (toLowerCase t)))"

text \<open>A note all of whose searched strings consist of characters below U+0100.\<close>

definition latin1_note :: "Note16 \<Rightarrow> bool" where
  "latin1_note n = (latin1 (title n) \<and> latin1 (content n) \<and> list_all latin1 (tags n))"

text \<open>A note of the store as the search view sees it.\<close>

definition units_note :: "Note \<Rightarrow> Note16" where
  "units_note n =
     \<lparr>note_id = units (note_id n), title = units (title n), content = units (content n),
      tags = map units (tags n), createdAt = createdAt n, updatedAt = updatedAt n\<rparr>"

text \<open>The two notes of the specification's filter example.\<close>

definition example_notes :: "Note list" where
  "example_notes =
     [\<lparr>note_id = ''n1'', title = ''Alpha'', content = [], tags = [''x''], createdAt = 1, updatedAt = 1\<rparr>,
      \<lparr>note_id = ''n2'', title = ''Beta'', content = ''alpha inside'', tags = [], createdAt = 2, updatedAt = 2\<rparr>]"

text \<open>
  A note whose title is the Greek word U+039F U+0394 U+039F U+03A3 in capital letters,
  and the query that consists of the capital sigma U+03A3.
\<close>

definition odos_note :: Note16 where
  "odos_note =
     \<lparr>note_id = units ''n3'', title = [0x39F, 0x394, 0x39F, 0x3A3], content = [], tags = [],
      createdAt = 3, updatedAt = 3\<rparr>"

definition sigma_query :: "code_unit list" where
  "sigma_query = [0x3A3]"

section \<open>Text service client (services/gemini.ts)\<close>

text \<open>
  The request handed to the provider's \<^verbatim>\<open>generateContent\<close>, and the effects a call
  leaves behind, in the order in which they happen.
\<close>

record request =
  model_name :: string
  contents :: string
  json_array :: bool

datatype event = ConsoleError string | Request request | Alert string

text \<open>
  The provider is an input: given the credential and a request it rejects the request or
  answers with a response whose \<^verbatim>\<open>text\<close> may be undefined.
\<close>

type_synonym text_service = "string \<Rightarrow> request \<Rightarrow> error + string option"

text \<open>\<^verbatim>\<open>process.env.API_KEY\<close>, undefined when the build had no credential.\<close>

record env =
  API_KEY :: "string option"

definition getAIClient :: "env \<Rightarrow> event list \<times> (error + string)" where
  "getAIClient e =
     (case API_KEY e of
        None \<Rightarrow>
          ([ConsoleError ''API Key not found in environment variables''],
           Inl (Error ''API Key is missing. Please ensure process.env.API_KEY is available.''))
      | Some apiKey \<Rightarrow>
          if apiKey = []
          then ([ConsoleError ''API Key not found in environment variables''],
                Inl (Error ''API Key is missing. Please ensure process.env.API_KEY is available.''))
          else ([], Inr apiKey))"

definition MODEL_NAME :: string where
  "MODEL_NAME = ''gemini-2.5-flash''"

definition generateNoteTitle :: "env \<Rightarrow> text_service \<Rightarrow> string \<Rightarrow> event list \<times> string" where
  "generateNoteTitle e svc cont =
     (if trim cont = [] then ([], ''Untitled Note'')
      else
        (case getAIClient e of
           (ev, Inl err) \<Rightarrow> (ev @ [ConsoleError ''Error generating title:''], ''Untitled Note'')
         | (ev, Inr ai) \<Rightarrow>
             (let req = \<lparr>model_name = MODEL_NAME,
                         contents = ''Generate a short, concise, and descriptive title (max 6 words) for the following note content. Do not include quotes or labels. Content: ''
                                    @ substring cont 0 1000,
                         json_array = False\<rparr>
              in case svc ai req of
                   Inl err \<Rightarrow> (ev @ [Request req, ConsoleError ''Error generating title:''], ''Untitled Note'')
                 | Inr response_text \<Rightarrow>
                     (ev @ [Request req],
                      (case response_text of
                         None \<Rightarrow> ''Untitled Note''
                       | Some t \<Rightarrow> if trim t = [] then ''Untitled Note'' else trim t)))))"

text \<open>
  \<^verbatim>\<open>generateNoteTags\<close> returns whatever \<^verbatim>\<open>JSON.parse\<close> makes of the answer; the
  empty array stands for every failure.
\<close>

definition generateNoteTags :: "env \<Rightarrow> text_service \<Rightarrow> string \<Rightarrow> event list \<times> jsvalue" where
  "generateNoteTags e svc cont =
     (if trim cont = [] then ([], JArr [])
      else
        (case getAIClient e of
           (ev, Inl err) \<Rightarrow> (ev @ [ConsoleError ''Error generating tags:''], JArr [])
         | (ev, Inr ai) \<Rightarrow>
             (let req = \<lparr>model_name = MODEL_NAME,
                         contents = ''Analyze the following note content and generate up to 5 relevant tags. Return the result as a JSON array of strings. Content: ''
                                    @ substring cont 0 2000,
                         json_array = True\<rparr>
              in case svc ai req of
                   Inl err \<Rightarrow> (ev @ [Request req, ConsoleError ''Error generating tags:''], JArr [])
                 | Inr response_text \<Rightarrow>
                     (case response_text of
                        None \<Rightarrow> (ev @ [Request req], JArr [])
                      | Some t \<Rightarrow>
                          if t = [] then (ev @ [Request req], JArr [])
                          else (case JSON_parse t of
                                  None \<Rightarrow> (ev @ [Request req, ConsoleError ''Error generating tags:''], JArr [])
                                | Some v \<Rightarrow> (ev @ [Request req], v))))))"

fun action_name :: "AIActionType \<Rightarrow> string" where
  "action_name summarize = ''summarize''"
| "action_name fix_grammar = ''fix_grammar''"
| "action_name generate_tags = ''generate_tags''"
| "action_name elaborate = ''elaborate''"
| "action_name generate_title = ''generate_title''"

text \<open>The \<^verbatim>\<open>switch\<close> of \<^verbatim>\<open>processAIAction\<close>; \<open>None\<close> is its default branch.\<close>

fun prompt_for :: "AIActionType \<Rightarrow> string \<Rightarrow> string option" where
  "prompt_for summarize textToProcess =
     Some (''Summarize the following text concisely in a few bullet points:''
           @ [CHR 0x0A, CHR 0x0A] @ textToProcess)"
| "prompt_for fix_grammar textToProcess =
     Some (''Correct the grammar and spelling of the following text. Preserve the original meaning and tone. Return only the corrected text:''
           @ [CHR 0x0A, CHR 0x0A] @ textToProcess)"
| "prompt_for elaborate textToProcess =
     Some (''Expand upon the following text, adding more detail and depth. Maintain a professional but creative tone:''
           @ [CHR 0x0A, CHR 0x0A] @ textToProcess)"
| "prompt_for _ textToProcess = None"

text \<open>
  \<^verbatim>\<open>processAIAction\<close>: the client is built first, then the text is chosen and checked,
  then the prompt, and only then the request goes out. An omitted \<^verbatim>\<open>selectedText\<close> is
  the empty string.
\<close>

definition processAIAction ::
    "env \<Rightarrow> text_service \<Rightarrow> AIActionType \<Rightarrow> string \<Rightarrow> string \<Rightarrow> event list \<times> (error + string)" where
  "processAIAction e svc action cont selectedText =
     (case getAIClient e of
        (ev, Inl err) \<Rightarrow> (ev, Inl err)
      | (ev, Inr ai) \<Rightarrow>
          (let textToProcess = (if selectedText \<noteq> [] then selectedText else cont)
           in if trim textToProcess = [] then (ev, Inl (Error ''No text to process''))
              else
                (case prompt_for action textToProcess of
                   None \<Rightarrow> (ev, Inl (Error ''Unknown action''))
                 | Some prompt \<Rightarrow>
                     (let req = \<lparr>model_name = MODEL_NAME, contents = prompt, json_array = False\<rparr>
                      in case svc ai req of
                           Inl err \<Rightarrow>
                             (ev @ [Request req,
                                    ConsoleError (''Error processing '' @ action_name action @ '':'')],
                              Inl err)
                         | Inr response_text \<Rightarrow>
                             (ev @ [Request req],
                              Inr (case response_text of None \<Rightarrow> [] | Some t \<Rightarrow> t))))))"

section \<open>Detail and edit view (components/Editor.tsx)\<close>

text \<open>
  The state cells of the \<^verbatim>\<open>Editor\<close> component: the \<^verbatim>\<open>note\<close> prop, the edit buffer
  (\<^verbatim>\<open>title\<close>, \<^verbatim>\<open>content\<close>, \<^verbatim>\<open>tags\<close>), the two flags, the time of the last save and
  the pending timeout of the debounced save. A pending timeout holds its due time and
  the values its callback closed over when the effect ran: the note and the buffer.
\<close>

record pending =
  due :: int
  p_note :: Note
  p_title :: string
  p_content :: string
  p_tags :: "string list"

record editor =
  ed_note :: Note
  ed_title :: string
  ed_content :: string
  ed_tags :: "string list"
  isProcessingAI :: bool
  showAITools :: bool
  lastSaved :: int
  handler :: "pending option"

text \<open>The selection of the content text area, as the DOM reports it.\<close>

record textarea =
  selectionStart :: nat
  selectionEnd :: nat

subsection \<open>Debounced save\<close>

text \<open>
  The effect with the dependencies \<^verbatim>\<open>[title, content, tags]\<close>: its cleanup clears the
  pending timeout and a new one is set, due 1000 ms later.
\<close>

definition schedule :: "int \<Rightarrow> editor \<Rightarrow> editor" where
  "schedule now s =
     s\<lparr>handler := Some \<lparr>due = now + 1000, p_note = ed_note s, p_title = ed_title s,
                         p_content = ed_content s, p_tags = ed_tags s\<rparr>\<rparr>"

text \<open>Mounting the component for a note: the state is initialised and the effect runs.\<close>

definition mount :: "int \<Rightarrow> Note \<Rightarrow> editor" where
  "mount now n =
     schedule now
       \<lparr>ed_note = n, ed_title = title n, ed_content = content n, ed_tags = tags n,
        isProcessingAI = False, showAITools = False, lastSaved = updatedAt n, handler = None\<rparr>"

text \<open>
  The state setters. Setting a string state to the value it has leaves the component as
  it is (no render, the effect does not run); every array handed to \<^verbatim>\<open>setTags\<close> is a
  new object, so the effect runs after each call.
\<close>

definition setTitle :: "int \<Rightarrow> string \<Rightarrow> editor \<Rightarrow> editor" where
  "setTitle now v s = (if v = ed_title s then s else schedule now (s\<lparr>ed_title := v\<rparr>))"

definition setContent :: "int \<Rightarrow> string \<Rightarrow> editor \<Rightarrow> editor" where
  "setContent now v s = (if v = ed_content s then s else schedule now (s\<lparr>ed_content := v\<rparr>))"

definition setTags :: "int \<Rightarrow> string list \<Rightarrow> editor \<Rightarrow> editor" where
  "setTags now ts s = schedule now (s\<lparr>ed_tags := ts\<rparr>)"

text \<open>
  \<^verbatim>\<open>handleSave\<close>, called by the timeout: the note the callback closed over, with the
  buffer and the clock reading, goes to \<^verbatim>\<open>onUpdate\<close>; the parent then renders the
  editor with the updated note. The second component lists the notes handed to
  \<^verbatim>\<open>onUpdate\<close>.
\<close>

definition handleSave :: "int \<Rightarrow> pending \<Rightarrow> editor \<Rightarrow> editor \<times> Note list" where
  "handleSave now p s =
     (let updatedNote = (p_note p)\<lparr>title := p_title p, content := p_content p,
                                  tags := p_tags p, updatedAt := now\<rparr>
      in (s\<lparr>ed_note := updatedNote, lastSaved := now\<rparr>, [updatedNote]))"

text \<open>The callback of the timeout, run at the time \<open>now\<close>.\<close>

definition timeout_callback :: "int \<Rightarrow> editor \<Rightarrow> editor \<times> Note list" where
  "timeout_callback now s =
     (case handler s of
        None \<Rightarrow> (s, [])
      | Some p \<Rightarrow>
          if p_title p \<noteq> title (p_note p) \<or> p_content p \<noteq> content (p_note p)
             \<or> stringify_strings (p_tags p) \<noteq> stringify_strings (tags (p_note p))
          then handleSave now p (s\<lparr>handler := None\<rparr>)
          else (s\<lparr>handler := None\<rparr>, []))"

text \<open>
  Time passes up to \<open>t\<close>: a timeout that is due by then has run, at its due time.
\<close>

definition advance :: "int \<Rightarrow> editor \<times> Note list \<Rightarrow> editor \<times> Note list" where
  "advance t sc =
     (case handler (fst sc) of
        None \<Rightarrow> sc
      | Some p \<Rightarrow>
          if due p \<le> t
          then (let (s', saved) = timeout_callback (due p) (fst sc) in (s', snd sc @ saved))
          else sc)"

text \<open>The edits of the buffer, and a run of edits with the times at which they happen.\<close>

datatype edit = SetTitle string | SetContent string | SetTags "string list"

fun apply_edit :: "int \<Rightarrow> edit \<Rightarrow> editor \<Rightarrow> editor" where
  "apply_edit now (SetTitle v) s = setTitle now v s"
| "apply_edit now (SetContent v) s = setContent now v s"
| "apply_edit now (SetTags ts) s = setTags now ts s"

fun run :: "(int \<times> edit) list \<Rightarrow> editor \<times> Note list \<Rightarrow> editor \<times> Note list" where
  "run [] sc = sc"
| "run ((t, e) # es) sc =
     (let (s, saved) = advance t sc in run es (apply_edit t e s, saved))"

subsection \<open>Tags\<close>

text \<open>
  \<^verbatim>\<open>handleTagInput\<close>: the key, the value of the input field and the state; the result
  holds the value the field has afterwards.
\<close>

definition handleTagInput :: "int \<Rightarrow> string \<Rightarrow> string \<Rightarrow> editor \<Rightarrow> editor \<times> string" where
  "handleTagInput now key field s =
     (if key = ''Enter''
      then (let val = trim field
            in if val \<noteq> [] \<and> val \<notin> set (ed_tags s)
               then (setTags now (ed_tags s @ [val]) s, [])
               else (s, field))
      else (s, field))"

definition removeTag :: "int \<Rightarrow> string \<Rightarrow> editor \<Rightarrow> editor" where
  "removeTag now tagToRemove s = setTags now (filter (\<lambda>tag. tag \<noteq> tagToRemove) (ed_tags s)) s"

text \<open>
  \<^verbatim>\<open>Array.from(new Set(xs))\<close>: the elements in the order of their first occurrence.
\<close>

definition array_from_set :: "string list \<Rightarrow> string list" where
  "array_from_set xs = foldl (\<lambda>acc x. if x \<in> set acc then acc else acc @ [x]) [] xs"

subsection \<open>AI actions\<close>

text \<open>
  \<^verbatim>\<open>handleAIAction\<close> runs in two parts around its \<^verbatim>\<open>await\<close>. What it reads from its
  closure (\<^verbatim>\<open>content\<close>, \<^verbatim>\<open>tags\<close>) are the values of the state \<open>s0\<close> in which the
  action was started; the setters after the \<^verbatim>\<open>await\<close> act on the state \<open>s1\<close> the
  component has when the call resolves. \<open>contentRef\<close> is the text area at the start
  (\<open>None\<close> when the ref is empty), \<open>later\<close> the selection the same element reports
  when the call has resolved.

  \<open>selected_text\<close> is the text the handler takes from the selection before the call.

  The tags answer is read at its declared type \<^verbatim>\<open>string[]\<close>; an answer that parses
  to something else has no meaning at the types of the program, and the result is
  \<open>None\<close>.
\<close>

definition selected_text :: "textarea option \<Rightarrow> string \<Rightarrow> string" where
  "selected_text contentRef cont =
     (case contentRef of
        None \<Rightarrow> []
      | Some ta \<Rightarrow>
          if selectionStart ta \<noteq> selectionEnd ta
          then substring cont (selectionStart ta) (selectionEnd ta)
          else [])"

definition handleAIAction_begin :: "editor \<Rightarrow> editor" where
  "handleAIAction_begin s = s\<lparr>isProcessingAI := True, showAITools := False\<rparr>"

definition handleAIAction ::
    "env \<Rightarrow> text_service \<Rightarrow> int \<Rightarrow> AIActionType \<Rightarrow> textarea option \<Rightarrow> textarea
     \<Rightarrow> editor \<Rightarrow> editor \<Rightarrow> event list \<times> editor option" where
  "handleAIAction e svc now action contentRef later s0 s1 =
     (if action = generate_tags then
        (case generateNoteTags e svc (ed_content s0) of
           (ev, v) \<Rightarrow>
             (case as_string_array v of
                None \<Rightarrow> (ev, None)
              | Some generatedTags \<Rightarrow>
                  if 0 < length generatedTags
                  then (ev, Some ((setTags now (array_from_set (ed_tags s0 @ generatedTags)) s1)
                                   \<lparr>isProcessingAI := False\<rparr>))
                  else (ev, Some (s1\<lparr>isProcessingAI := False\<rparr>))))
      else if action = generate_title then
        (case generateNoteTitle e svc (ed_content s0) of
           (ev, newTitle) \<Rightarrow> (ev, Some ((setTitle now newTitle s1)\<lparr>isProcessingAI := False\<rparr>)))
      else
        (let selectedText = selected_text contentRef (ed_content s0)
         in case processAIAction e svc action (ed_content s0) selectedText of
              (ev, Inl err) \<Rightarrow>
                (ev @ [ConsoleError ''AI Action Failed'', Alert ''Something went wrong with the AI request.''],
                 Some (s1\<lparr>isProcessingAI := False\<rparr>))
            | (ev, Inr result) \<Rightarrow>
                if selectedText \<noteq> [] \<and> contentRef \<noteq> None
                then (ev, Some ((setContent now
                                   (substring (ed_content s0) 0 (selectionStart later) @ result
                                    @ substring_from (ed_content s0) (selectionEnd later)) s1)
                                 \<lparr>isProcessingAI := False\<rparr>))
                else if action = summarize
                then (ev, Some ((setContent now
                                   (ed_content s1 @ [CHR 0x0A, CHR 0x0A] @ ''### Summary'' @ [CHR 0x0A] @ result) s1)
                                 \<lparr>isProcessingAI := False\<rparr>))
                else (ev, Some ((setContent now result s1)\<lparr>isProcessingAI := False\<rparr>))))"

subsection \<open>The states an editor can reach\<close>

text \<open>
  An editor is mounted for the welcome note or for a note that \<^verbatim>\<open>createNote\<close> has
  made; from there the user types into the title and the content, adds and removes
  tags, starts AI actions (\<open>s0\<close> is the state in which an action was started,
  \<open>s1\<close> the state in which its call resolves), the timeout of the debounced save
  runs, and the saved note is mounted again when the user comes back to it.
\<close>

inductive reachable :: "editor \<Rightarrow> bool" where
  mount_welcome: "n \<in> set (INITIAL_NOTES t) \<Longrightarrow> reachable (mount now n)"
| mount_new: "reachable (mount now (newNote uuid t))"
| type_title: "reachable s \<Longrightarrow> reachable (setTitle now v s)"
| type_content: "reachable s \<Longrightarrow> reachable (setContent now v s)"
| tag_input: "reachable s \<Longrightarrow> reachable (fst (handleTagInput now key field s))"
| tag_removed: "reachable s \<Longrightarrow> reachable (removeTag now tagToRemove s)"
| ai_started: "reachable s \<Longrightarrow> reachable (handleAIAction_begin s)"
| ai_resolved:
    "reachable s0 \<Longrightarrow> reachable s1 \<Longrightarrow>
     handleAIAction e svc now action contentRef later s0 s1 = (ev, Some s') \<Longrightarrow> reachable s'"
| timed_out: "reachable s \<Longrightarrow> reachable (fst (timeout_callback now s))"
| mounted_again: "reachable s \<Longrightarrow> reachable (mount now (ed_note s))"

text \<open>
  The invariant of the tag lists: neither the buffer, nor the note, nor what a pending
  timeout closed over holds a tag twice.
\<close>

definition tags_ok :: "editor \<Rightarrow> bool" where
  "tags_ok s = (distinct (ed_tags s) \<and> distinct (tags (ed_note s))
               \<and> (case handler s of None \<Rightarrow> True | Some p \<Rightarrow> distinct (p_tags p) \<and> distinct (tags (p_note p))))"

subsection \<open>Bursts of edits\<close>

text \<open>
  The notions the statement about the debounced save is made of. An editor is clean when
  its buffer is the note and a timeout that is still pending closed over that state. An
  edit changes the buffer when it sets the title or the content to another value, or
  sets the tags (every array is a new object). A burst is a run of such edits, each less
  than 1000 ms after the one before; \<open>last_time\<close> is the time of its last edit. An editor
  is armed for \<open>t\<close> when the timeout set at \<open>t\<close> is pending and closed over the
  present state; it is dirty when the buffer differs from the note, and \<open>committed\<close>
  is the note that a save at \<open>t\<close> hands to \<^verbatim>\<open>onUpdate\<close>.
\<close>

definition clean :: "editor \<Rightarrow> bool" where
  "clean s =
     (ed_title s = title (ed_note s) \<and> ed_content s = content (ed_note s) \<and> ed_tags s = tags (ed_note s)
      \<and> (case handler s of
            None \<Rightarrow> True
          | Some p \<Rightarrow> p_note p = ed_note s \<and> p_title p = ed_title s \<and> p_content p = ed_content s
                      \<and> p_tags p = ed_tags s))"

fun changes :: "edit \<Rightarrow> editor \<Rightarrow> bool" where
  "changes (SetTitle v) s = (v \<noteq> ed_title s)"
| "changes (SetContent v) s = (v \<noteq> ed_content s)"
| "changes (SetTags ts) s = True"

fun burst :: "int \<Rightarrow> editor \<Rightarrow> (int \<times> edit) list \<Rightarrow> bool" where
  "burst t s [] = True"
| "burst t s ((t', e) # es) =
     (t \<le> t' \<and> t' < t + 1000 \<and> changes e s \<and> burst t' (apply_edit t' e s) es)"

fun last_time :: "int \<Rightarrow> (int \<times> edit) list \<Rightarrow> int" where
  "last_time t [] = t"
| "last_time t ((t', e) # es) = last_time t' es"

definition armed :: "int \<Rightarrow> editor \<Rightarrow> bool" where
  "armed t s =
     (case handler s of
        None \<Rightarrow> False
      | Some p \<Rightarrow> due p = t + 1000 \<and> p_note p = ed_note s \<and> p_title p = ed_title s
                  \<and> p_content p = ed_content s \<and> p_tags p = ed_tags s)"

definition dirty :: "editor \<Rightarrow> bool" where
  "dirty s =
     (ed_title s \<noteq> title (ed_note s) \<or> ed_content s \<noteq> content (ed_note s) \<or> ed_tags s \<noteq> tags (ed_note s))"

definition committed :: "int \<Rightarrow> editor \<Rightarrow> Note" where
  "committed t s = (ed_note s)\<lparr>title := ed_title s, content := ed_content s, tags := ed_tags s, updatedAt := t\<rparr>"

section \<open>Example data\<close>

text \<open>A note used by the worked examples below.\<close>

definition example_note :: Note where
  "example_note = \<lparr>note_id = ''n1'', title = ''T'', content = ''abcdef'', tags = [''x''], createdAt = 1, updatedAt = 1\<rparr>"

text \<open>The welcome note of a first start, and a provider that answers with two tags.\<close>

definition welcome_note :: Note where
  "welcome_note = hd (INITIAL_NOTES 0)"

definition tags_service :: text_service where
  "tags_service k r = Inr (Some (stringify_strings [''work'', ''welcome'']))"

section \<open>Auxiliary notions\<close>

text \<open>
  What may follow a numeral so that the numeral ends there, and a depth of calls that
  suffices to parse the serialization of a collection.
\<close>

definition number_end :: "string \<Rightarrow> bool" where
  "number_end rest =
     (case rest of [] \<Rightarrow> True
      | c # r \<Rightarrow> \<not> is_digit c \<and> c \<noteq> CHR ''.'' \<and> c \<noteq> CHR ''e'' \<and> c \<noteq> CHR ''E'')"

definition fuel_for :: "Note list \<Rightarrow> nat" where
  "fuel_for ns = sum_list (map (\<lambda>n. length (tags n) + 9) ns)"

section \<open>Properties of the text service client and of the AI actions\<close>

lemma getAIClient_cases:
  "getAIClient e =
     (if API_KEY e = None \<or> API_KEY e = Some []
      then ([ConsoleError ''API Key not found in environment variables''],
            Inl (Error ''API Key is missing. Please ensure process.env.API_KEY is available.''))
      else ([], Inr (the (API_KEY e))))"
  by (auto simp: getAIClient_def split: option.splits)

lemma processAIAction_blank:
  assumes "trim (if selectedText \<noteq> [] then selectedText else cont) = []"
  shows "processAIAction e svc action cont selectedText =
           (if API_KEY e = None \<or> API_KEY e = Some []
            then ([ConsoleError ''API Key not found in environment variables''],
                  Inl (Error ''API Key is missing. Please ensure process.env.API_KEY is available.''))
            else ([], Inl (Error ''No text to process'')))"
  using assms by (simp add: processAIAction_def getAIClient_cases Let_def)

lemma handleAIAction_failed:
  assumes "action = summarize \<or> action = fix_grammar \<or> action = elaborate"
    and "processAIAction e svc action (ed_content s0) (selected_text contentRef (ed_content s0)) = (ev, Inl err)"
  shows "handleAIAction e svc now action contentRef later s0 s1 =
           (ev @ [ConsoleError ''AI Action Failed'', Alert ''Something went wrong with the AI request.''],
            Some (s1\<lparr>isProcessingAI := False\<rparr>))"
  using assms by (auto simp: handleAIAction_def Let_def)

lemma ed_content_setContent: "ed_content (setContent now v s) = v"
  by (simp add: setContent_def schedule_def)

lemma handleAIAction_succeeded:
  assumes "action = summarize \<or> action = fix_grammar \<or> action = elaborate"
    and "processAIAction e svc action (ed_content s0) (selected_text contentRef (ed_content s0)) = (ev, Inr result)"
  shows "handleAIAction e svc now action contentRef later s0 s1 =
           (ev, Some ((setContent now
                  (if selected_text contentRef (ed_content s0) \<noteq> [] \<and> contentRef \<noteq> None
                   then substring (ed_content s0) 0 (selectionStart later) @ result
                        @ substring_from (ed_content s0) (selectionEnd later)
                   else if action = summarize
                   then ed_content s1 @ [CHR 0x0A, CHR 0x0A] @ ''### Summary'' @ [CHR 0x0A] @ result
                   else result) s1)\<lparr>isProcessingAI := False\<rparr>))"
  using assms by (auto simp: handleAIAction_def Let_def)

lemma selected_text_span:
  assumes "selectionStart ta < selectionEnd ta" and "selectionEnd ta \<le> length cont"
  shows "selected_text (Some ta) cont = take (selectionEnd ta - selectionStart ta) (drop (selectionStart ta) cont)"
    and "selected_text (Some ta) cont \<noteq> []"
  using assms by (auto simp: selected_text_def substring_def Let_def min_def max_def)

lemma getAIClient_missing:
  "API_KEY e = None \<or> API_KEY e = Some [] \<Longrightarrow>
   getAIClient e = ([ConsoleError ''API Key not found in environment variables''],
                    Inl (Error ''API Key is missing. Please ensure process.env.API_KEY is available.''))"
  by (auto simp: getAIClient_def)

lemma getAIClient_present:
  "API_KEY e = Some k \<Longrightarrow> k \<noteq> [] \<Longrightarrow> getAIClient e = ([], Inr k)"
  by (simp add: getAIClient_def)

section \<open>Parsing what was serialized\<close>

subsection \<open>String literals\<close>

lemma char_code_eq: "(c = d) = ((of_char c :: nat) = of_char d)"
  by simp

lemma cons_fst_Some [simp]: "cons_fst x (Some (xs, r)) = Some (x # xs, r)"
  by (simp add: cons_fst_def)

lemma cons_fst_None [simp]: "cons_fst x None = None"
  by (simp add: cons_fst_def)

lemma hexval_hexdigit: "d < 16 \<Longrightarrow> hexval (hexdigit d) = Some d"
  by (auto simp: hexval_def hexdigit_def Let_def)

lemma hexval_zero: "hexval CHR ''0'' = Some 0"
  by (simp add: hexval_def)

lemma char_of_escapes:
  "char_of (34::nat) = CHR 0x22" "char_of (92::nat) = CHR 0x5C" "char_of (8::nat) = CHR 0x08"
  "char_of (12::nat) = CHR 0x0C" "char_of (10::nat) = CHR 0x0A" "char_of (13::nat) = CHR 0x0D"
  "char_of (9::nat) = CHR 0x09"
  by (simp_all add: char_of_eq_iff)

lemma parse_chars_quote_char:
  "parse_chars (quote_char c @ r) = cons_fst c (parse_chars r)"
proof -
  define k where "k = (of_char c :: nat)"
  have c: "c = char_of k" by (simp add: k_def)
  have ck: "char_of k = c" by (simp add: k_def)
  have k: "k < 256" by (simp add: k_def)
  consider "k = 34" | "k = 92" | "k = 8" | "k = 12" | "k = 10" | "k = 13" | "k = 9"
    | "k < 32" "k \<noteq> 8" "k \<noteq> 12" "k \<noteq> 10" "k \<noteq> 13" "k \<noteq> 9"
    | "32 \<le> k" "k \<noteq> 34" "k \<noteq> 92"
    by linarith
  then show ?thesis
  proof cases
    case 8
    then have h: "hex4 CHR ''0'' CHR ''0'' (hexdigit (k div 16)) (hexdigit (k mod 16)) = Some k"
      by (simp add: hex4_def hexval_zero hexval_hexdigit)
    from 8 have q: "quote_char c = [CHR 0x5C, CHR ''u'', CHR ''0'', CHR ''0'', hexdigit (k div 16), hexdigit (k mod 16)]"
      by (simp add: quote_char_def k_def [symmetric] Let_def)
    show ?thesis
      using k by (simp add: q h ck)
  next
    case 9
    then have q: "quote_char c = [c]"
      by (simp add: quote_char_def k_def [symmetric] Let_def)
    from 9 k have "c \<noteq> CHR 0x22" "c \<noteq> CHR 0x5C"
      by (auto simp: c char_of_eq_iff take_bit_eq_mod)
    with 9 show ?thesis
      by (simp add: q k_def [symmetric])
  qed (simp_all add: quote_char_def c unescape_def char_of_escapes)
qed

lemma parse_chars_quoted:
  "parse_chars (concat (map quote_char s) @ CHR 0x22 # rest) = Some (s, rest)"
  by (induction s) (simp_all add: parse_chars_quote_char)

lemma is_digit_char_of: "d < 10 \<Longrightarrow> is_digit (char_of (48 + (d::nat)))"
  by (simp add: is_digit_def)

lemma show_nat_digits: "list_all is_digit (show_nat n) \<and> show_nat n \<noteq> []"
proof (induction n rule: show_nat.induct)
  case (1 n)
  show ?case
  proof (cases "n < 10")
    case True
    then show ?thesis
      by (subst show_nat.simps, subst (2) show_nat.simps) (simp add: is_digit_char_of)
  next
    case False
    then have "list_all is_digit (show_nat (n div 10))" using 1 by simp
    with False show ?thesis
      by (subst show_nat.simps, subst (2) show_nat.simps) (simp add: is_digit_char_of)
  qed
qed

lemma digits_val_snoc: "digits_val (ds @ [c]) = 10 * digits_val ds + (of_char c - 48)"
  by (simp add: digits_val_def)

lemma digits_val_show_nat: "digits_val (show_nat n) = n"
proof (induction n rule: show_nat.induct)
  case (1 n)
  show ?case
  proof (cases "n < 10")
    case True
    then show ?thesis
      by (subst show_nat.simps) (simp add: digits_val_def)
  next
    case False
    then have "digits_val (show_nat (n div 10)) = n div 10" using 1 by simp
    with False show ?thesis
      by (subst show_nat.simps) (simp add: digits_val_snoc)
  qed
qed

lemma hd_show_nat: "0 < n \<Longrightarrow> hd (show_nat n) \<noteq> CHR ''0''"
proof (induction n rule: show_nat.induct)
  case (1 n)
  show ?case
  proof (cases "n < 10")
    case True
    with 1(2) show ?thesis
      by (subst show_nat.simps) (simp add: char_of_eq_iff take_bit_eq_mod)
  next
    case False
    then have "hd (show_nat (n div 10)) \<noteq> CHR ''0''" using 1 by simp
    with False show_nat_digits [of "n div 10"] show ?thesis
      by (subst show_nat.simps) simp
  qed
qed

lemma length_show_nat: "1 < length (show_nat n) \<Longrightarrow> 0 < n"
  by (subst (asm) show_nat.simps) (auto split: if_splits)

lemma takeWhile_digits:
  "list_all is_digit ds \<Longrightarrow> number_end rest \<Longrightarrow> takeWhile is_digit (ds @ rest) = ds"
  by (induction ds) (auto simp: number_end_def split: list.splits)

lemma dropWhile_digits:
  "list_all is_digit ds \<Longrightarrow> number_end rest \<Longrightarrow> dropWhile is_digit (ds @ rest) = rest"
  by (induction ds) (auto simp: number_end_def split: list.splits)

lemma parse_frac_end: "number_end rest \<Longrightarrow> parse_frac rest = Some ([], rest)"
  by (auto simp: parse_frac_def number_end_def split: list.splits)

lemma parse_exp_end: "number_end rest \<Longrightarrow> parse_exp rest = Some (0, rest)"
  by (auto simp: parse_exp_def number_end_def split: list.splits)

lemma parse_number_signed:
  assumes "number_end rest"
  shows "parse_number ((if neg then ''-'' else []) @ show_nat n @ rest)
           = Some ((if neg then - 1 else 1) * of_nat n, rest)"
proof -
  obtain c cs where s: "show_nat n = c # cs" and c: "is_digit c"
    using show_nat_digits [of n] by (cases "show_nat n") auto
  from c have m: "c \<noteq> CHR ''-''" by (auto simp: is_digit_def)
  have z: "\<not> (1 < length (show_nat n) \<and> hd (show_nat n) = CHR ''0'')"
    using length_show_nat [of n] hd_show_nat [of n] by blast
  have t: "takeWhile is_digit (show_nat n @ rest) = show_nat n"
    and d: "dropWhile is_digit (show_nat n @ rest) = rest"
    using show_nat_digits [of n] assms by (simp_all add: takeWhile_digits dropWhile_digits)
  have e: "show_nat n \<noteq> []" by (simp add: s)
  show ?thesis
  proof (cases neg)
    case True
    have "parse_number (CHR ''-'' # show_nat n @ rest) = Some (- of_nat n, rest)"
      using z t d e
      by (simp add: parse_number_def parse_frac_end [OF assms] parse_exp_end [OF assms]
          digits_val_show_nat Let_def)
    with True show ?thesis by simp
  next
    case False
    have "parse_number (c # cs @ rest) = Some (of_nat n, rest)"
      using m z t d s
      by (simp add: parse_number_def parse_frac_end [OF assms] parse_exp_end [OF assms]
          digits_val_show_nat [of n, unfolded s] del: takeWhile.simps dropWhile.simps)
    with False show ?thesis by (simp add: s)
  qed
qed

lemma parse_number_show_int:
  assumes "number_end rest"
  shows "parse_number (show_int i @ rest) = Some (of_int i, rest)"
proof (cases "i < 0")
  case True
  then have "show_int i @ rest = (if True then ''-'' else []) @ show_nat (nat (- i)) @ rest"
    by (simp add: show_int_def)
  moreover from True have "(- 1) * rat_of_nat (nat (- i)) = of_int i"
    by simp
  ultimately show ?thesis
    using parse_number_signed [OF assms, of True "nat (- i)"] by simp
next
  case False
  then have "show_int i @ rest = (if False then ''-'' else []) @ show_nat (nat i) @ rest"
    by (simp add: show_int_def)
  moreover from False have "rat_of_nat (nat i) = of_int i"
    by simp
  ultimately show ?thesis
    using parse_number_signed [OF assms, of False "nat i"] by simp
qed

subsection \<open>Values, arrays and objects\<close>

lemma skip_ws_nonws: "\<not> is_ws c \<Longrightarrow> skip_ws (c # r) = c # r"
  by (simp add: skip_ws_def)

lemma quote_append: "quote s @ rest = CHR 0x22 # concat (map quote_char s) @ CHR 0x22 # rest"
  by (simp add: quote_def)

lemma skip_ws_quote: "skip_ws (quote s @ rest) = quote s @ rest"
  by (simp add: quote_append skip_ws_nonws is_ws_def)

lemma parse_value_string:
  "0 < f \<Longrightarrow> parse_value f (quote s @ rest) = Some (JStr s, rest)"
  by (cases f) (simp_all add: quote_append skip_ws_nonws is_ws_def parse_chars_quoted)

lemma show_int_first:
  "\<exists>c cs. show_int i = c # cs \<and> (c = CHR ''-'' \<or> is_digit c)"
proof (cases "i < 0")
  case True
  then show ?thesis by (simp add: show_int_def)
next
  case False
  obtain c cs where "show_nat (nat i) = c # cs" "is_digit c"
    using show_nat_digits [of "nat i"] by (cases "show_nat (nat i)") auto
  with False show ?thesis by (simp add: show_int_def)
qed

lemma parse_value_int:
  assumes "0 < f" and "number_end rest"
  shows "parse_value f (show_int i @ rest) = Some (JNum (of_int i), rest)"
proof -
  obtain c cs where s: "show_int i = c # cs" and c: "c = CHR ''-'' \<or> is_digit c"
    using show_int_first by blast
  from c have n: "\<not> is_ws c" "c \<noteq> CHR ''[''" "c \<noteq> CHR ''{''" "c \<noteq> CHR 0x22"
      "c \<noteq> CHR ''t''" "c \<noteq> CHR ''f''" "c \<noteq> CHR ''n''"
    by (auto simp: is_digit_def is_ws_def)
  obtain g where f: "f = Suc g" using assms(1) by (cases f) auto
  have "parse_number (c # cs @ rest) = Some (of_int i, rest)"
    using parse_number_show_int [OF assms(2), of i] by (simp add: s)
  then show ?thesis
    using n by (simp add: f s skip_ws_nonws)
qed

lemma commas_quote_first:
  assumes "ts \<noteq> []"
  shows "\<exists>r. commas (map quote ts) = CHR 0x22 # r"
proof -
  obtain u us where "ts = u # us" using assms by (cases ts) auto
  then show ?thesis by (cases us) (simp_all add: quote_def)
qed

lemma parse_elements_strings:
  "ts \<noteq> [] \<Longrightarrow> length ts < f \<Longrightarrow>
   parse_elements f (commas (map quote ts) @ CHR '']'' # rest) = Some (map JStr ts, rest)"
proof (induction ts arbitrary: f)
  case Nil
  then show ?case by simp
next
  case (Cons t ts)
  then obtain g where f: "f = Suc g" and g: "length ts < g" by (cases f) auto
  then have g0: "0 < g" by simp
  show ?case
  proof (cases ts)
    case Nil
    then show ?thesis
      using g0 by (simp add: f parse_value_string skip_ws_nonws is_ws_def)
  next
    case (Cons u us)
    then have "parse_elements g (commas (map quote ts) @ CHR '']'' # rest) = Some (map JStr ts, rest)"
      using Cons.IH [of g] g by simp
    then show ?thesis
      using g0 Cons by (simp add: f parse_value_string skip_ws_nonws is_ws_def)
  qed
qed

lemma parse_value_strings:
  assumes "length ts + 1 < f"
  shows "parse_value f (stringify_strings ts @ rest) = Some (JArr (map JStr ts), rest)"
proof -
  obtain g where f: "f = Suc g" and g: "length ts < g" using assms by (cases f) auto
  show ?thesis
  proof (cases "ts = []")
    case True
    then show ?thesis
      by (simp add: f stringify_strings_def skip_ws_nonws is_ws_def)
  next
    case False
    then obtain r where r: "commas (map quote ts) = CHR 0x22 # r"
      using commas_quote_first by blast
    have "parse_elements g (commas (map quote ts) @ CHR '']'' # rest) = Some (map JStr ts, rest)"
      using parse_elements_strings [OF False g] .
    then have "parse_elements g (CHR 0x22 # r @ CHR '']'' # rest) = Some (map JStr ts, rest)"
      by (simp add: r)
    then show ?thesis
      by (simp add: f stringify_strings_def skip_ws_nonws is_ws_def r)
  qed
qed

lemma parse_members_step:
  assumes "parse_value f (vtxt @ CHR '','' # nxt) = Some (v, CHR '','' # nxt)"
  shows "parse_members (Suc f) (quote k @ CHR '':'' # vtxt @ CHR '','' # nxt)
           = cons_fst (k, v) (parse_members f nxt)"
  using assms
  by (simp add: quote_append skip_ws_nonws is_ws_def parse_chars_quoted)

lemma parse_members_last:
  assumes "parse_value f (vtxt @ CHR ''}'' # rest) = Some (v, CHR ''}'' # rest)"
  shows "parse_members (Suc f) (quote k @ CHR '':'' # vtxt @ CHR ''}'' # rest) = Some ([(k, v)], rest)"
  using assms
  by (simp add: quote_append skip_ws_nonws is_ws_def parse_chars_quoted)

lemma number_end_comma: "number_end (CHR '','' # r)" and number_end_brace: "number_end (CHR ''}'' # r)"
  by (simp_all add: number_end_def is_digit_def)

lemma js_object_note:
  "js_object [(''id'', a), (''title'', b), (''content'', c), (''tags'', d), (''createdAt'', e), (''updatedAt'', f)]
     = [(''id'', a), (''title'', b), (''content'', c), (''tags'', d), (''createdAt'', e), (''updatedAt'', f)]"
  by (simp add: js_object_def is_array_index_def is_digit_def)

lemma parse_members_note:
  assumes "length (tags n) + 1 \<le> f"
  shows "parse_members (Suc (Suc (Suc (Suc (Suc (Suc f))))))
           (quote ''id'' @ CHR '':'' # quote (note_id n)
            @ CHR '','' # quote ''title'' @ CHR '':'' # quote (title n)
            @ CHR '','' # quote ''content'' @ CHR '':'' # quote (content n)
            @ CHR '','' # quote ''tags'' @ CHR '':'' # stringify_strings (tags n)
            @ CHR '','' # quote ''createdAt'' @ CHR '':'' # show_int (createdAt n)
            @ CHR '','' # quote ''updatedAt'' @ CHR '':'' # show_int (updatedAt n)
            @ CHR ''}'' # rest)
         = Some ([(''id'', JStr (note_id n)), (''title'', JStr (title n)), (''content'', JStr (content n)),
                  (''tags'', JArr (map JStr (tags n))),
                  (''createdAt'', JNum (of_int (createdAt n))), (''updatedAt'', JNum (of_int (updatedAt n)))], rest)"
proof -
  from assms have f0: "0 < f" by simp
  have m6: "parse_members (Suc f) (quote ''updatedAt'' @ CHR '':'' # show_int (updatedAt n) @ CHR ''}'' # rest)
              = Some ([(''updatedAt'', JNum (of_int (updatedAt n)))], rest)"
    by (rule parse_members_last) (rule parse_value_int [OF f0 number_end_brace])
  have m5: "parse_members (Suc (Suc f)) (quote ''createdAt'' @ CHR '':'' # show_int (createdAt n) @ CHR '','' # nxt)
              = cons_fst (''createdAt'', JNum (of_int (createdAt n))) (parse_members (Suc f) nxt)" for nxt
    by (rule parse_members_step) (rule parse_value_int [OF _ number_end_comma], simp)
  have m4: "parse_members (Suc (Suc (Suc f))) (quote ''tags'' @ CHR '':'' # stringify_strings (tags n) @ CHR '','' # nxt)
              = cons_fst (''tags'', JArr (map JStr (tags n))) (parse_members (Suc (Suc f)) nxt)" for nxt
    by (rule parse_members_step) (rule parse_value_strings, use assms in simp)
  have m3: "parse_members (Suc (Suc (Suc (Suc f)))) (quote ''content'' @ CHR '':'' # quote (content n) @ CHR '','' # nxt)
              = cons_fst (''content'', JStr (content n)) (parse_members (Suc (Suc (Suc f))) nxt)" for nxt
    by (rule parse_members_step) (rule parse_value_string, simp)
  have m2: "parse_members (Suc (Suc (Suc (Suc (Suc f))))) (quote ''title'' @ CHR '':'' # quote (title n) @ CHR '','' # nxt)
              = cons_fst (''title'', JStr (title n)) (parse_members (Suc (Suc (Suc (Suc f)))) nxt)" for nxt
    by (rule parse_members_step) (rule parse_value_string, simp)
  have m1: "parse_members (Suc (Suc (Suc (Suc (Suc (Suc f)))))) (quote ''id'' @ CHR '':'' # quote (note_id n) @ CHR '','' # nxt)
              = cons_fst (''id'', JStr (note_id n)) (parse_members (Suc (Suc (Suc (Suc (Suc f))))) nxt)" for nxt
    by (rule parse_members_step) (rule parse_value_string, simp)
  show ?thesis
    by (simp only: m1 m2 m3 m4 m5 m6 cons_fst_Some)
qed

lemma parse_value_object:
  assumes "parse_members f (CHR 0x22 # r) = Some (ms, rest)"
  shows "parse_value (Suc f) (CHR ''{'' # CHR 0x22 # r) = Some (JObj (js_object ms), rest)"
  by (simp add: skip_ws_nonws is_ws_def assms)

lemma parse_value_note:
  assumes "length (tags n) + 8 \<le> f"
  shows "parse_value f (stringify_note n @ rest) = Some (json_of_note n, rest)"
proof -
  define g where "g = f - 7"
  have f: "f = Suc (Suc (Suc (Suc (Suc (Suc (Suc g))))))" and g: "length (tags n) + 1 \<le> g"
    using assms by (simp_all add: g_def)
  define body where "body =
            quote ''id'' @ CHR '':'' # quote (note_id n)
            @ CHR '','' # quote ''title'' @ CHR '':'' # quote (title n)
            @ CHR '','' # quote ''content'' @ CHR '':'' # quote (content n)
            @ CHR '','' # quote ''tags'' @ CHR '':'' # stringify_strings (tags n)
            @ CHR '','' # quote ''createdAt'' @ CHR '':'' # show_int (createdAt n)
            @ CHR '','' # quote ''updatedAt'' @ CHR '':'' # show_int (updatedAt n)
            @ CHR ''}'' # rest"
  have b: "body = CHR 0x22 # tl body"
    by (simp add: body_def quote_append)
  have s: "stringify_note n @ rest = CHR ''{'' # body"
    by (simp add: stringify_note_def body_def)
  have "parse_members (Suc (Suc (Suc (Suc (Suc (Suc g)))))) body
         = Some ([(''id'', JStr (note_id n)), (''title'', JStr (title n)), (''content'', JStr (content n)),
                  (''tags'', JArr (map JStr (tags n))),
                  (''createdAt'', JNum (of_int (createdAt n))), (''updatedAt'', JNum (of_int (updatedAt n)))], rest)"
    unfolding body_def by (rule parse_members_note [OF g])
  then have "parse_members (Suc (Suc (Suc (Suc (Suc (Suc g)))))) (CHR 0x22 # tl body)
         = Some ([(''id'', JStr (note_id n)), (''title'', JStr (title n)), (''content'', JStr (content n)),
                  (''tags'', JArr (map JStr (tags n))),
                  (''createdAt'', JNum (of_int (createdAt n))), (''updatedAt'', JNum (of_int (updatedAt n)))], rest)"
    using b by simp
  from parse_value_object [OF this] have "parse_value f (CHR ''{'' # CHR 0x22 # tl body) = Some (json_of_note n, rest)"
    by (simp only: f js_object_note json_of_note_def)
  then show ?thesis
    using b by (simp add: s)
qed

subsection \<open>Collections of notes\<close>

lemma parse_elements_notes:
  "ns \<noteq> [] \<Longrightarrow> fuel_for ns \<le> f \<Longrightarrow>
   parse_elements f (commas (map stringify_note ns) @ CHR '']'' # rest) = Some (map json_of_note ns, rest)"
proof (induction ns arbitrary: f)
  case Nil
  then show ?case by simp
next
  case (Cons n ns)
  then obtain g where f: "f = Suc g" and g: "length (tags n) + 8 + fuel_for ns \<le> g"
    by (cases f) (auto simp: fuel_for_def)
  have v: "parse_value g (stringify_note n @ r) = Some (json_of_note n, r)" for r
    using g by (intro parse_value_note) simp
  show ?case
  proof (cases ns)
    case Nil
    then show ?thesis
      by (simp add: f v skip_ws_nonws is_ws_def)
  next
    case (Cons m ms)
    then have "parse_elements g (commas (map stringify_note ns) @ CHR '']'' # rest) = Some (map json_of_note ns, rest)"
      using Cons.IH [of g] g by simp
    then show ?thesis
      using Cons by (simp add: f v skip_ws_nonws is_ws_def)
  qed
qed

lemma commas_notes_first:
  assumes "ns \<noteq> []"
  shows "\<exists>r. commas (map stringify_note ns) = CHR ''{'' # r"
proof -
  obtain u us where "ns = u # us" using assms by (cases ns) auto
  then show ?thesis by (cases us) (simp_all add: stringify_note_def)
qed

lemma parse_value_notes:
  assumes "fuel_for ns + 1 \<le> f"
  shows "parse_value f (stringify_notes ns @ rest) = Some (json_of_notes ns, rest)"
proof -
  obtain g where f: "f = Suc g" and g: "fuel_for ns \<le> g" using assms by (cases f) auto
  show ?thesis
  proof (cases "ns = []")
    case True
    then show ?thesis
      by (simp add: f stringify_notes_def json_of_notes_def skip_ws_nonws is_ws_def)
  next
    case False
    then obtain r where r: "commas (map stringify_note ns) = CHR ''{'' # r"
      using commas_notes_first by blast
    have "parse_elements g (commas (map stringify_note ns) @ CHR '']'' # rest) = Some (map json_of_note ns, rest)"
      using parse_elements_notes [OF False g] .
    then have "parse_elements g (CHR ''{'' # r @ CHR '']'' # rest) = Some (map json_of_note ns, rest)"
      by (simp add: r)
    then show ?thesis
      by (simp add: f stringify_notes_def json_of_notes_def skip_ws_nonws is_ws_def r)
  qed
qed

lemma length_commas: "sum_list (map length xs) \<le> length (commas xs)"
  by (induction xs rule: commas.induct) simp_all

lemma length_quote: "2 \<le> length (quote s)"
  by (simp add: quote_def)

lemma length_stringify_strings: "length ts \<le> length (stringify_strings ts)"
proof -
  have "length ts \<le> sum_list (map length (map quote ts))"
    by (induction ts) (simp_all add: quote_def)
  also have "\<dots> \<le> length (commas (map quote ts))" by (rule length_commas)
  finally show ?thesis by (simp add: stringify_strings_def)
qed

lemma length_stringify_note: "length (tags n) + 9 \<le> length (stringify_note n)"
  using length_stringify_strings [of "tags n"] length_quote [of "''id''"] length_quote [of "''title''"]
    length_quote [of "''content''"] length_quote [of "''tags''"] length_quote [of "''createdAt''"]
  by (simp add: stringify_note_def)

lemma fuel_for_le: "fuel_for ns \<le> length (stringify_notes ns)"
proof -
  have "fuel_for ns \<le> sum_list (map length (map stringify_note ns))"
    by (induction ns) (simp_all add: fuel_for_def add_mono length_stringify_note)
  also have "\<dots> \<le> length (commas (map stringify_note ns))" by (rule length_commas)
  finally show ?thesis by (simp add: stringify_notes_def)
qed

lemma JSON_parse_stringify_notes: "JSON_parse (stringify_notes ns) = Some (json_of_notes ns)"
proof -
  have "fuel_for ns + 1 \<le> 2 * length (stringify_notes ns) + 2"
    using fuel_for_le [of ns] by simp
  from parse_value_notes [OF this, of "[]"] show ?thesis
    by (simp add: JSON_parse_def skip_ws_def)
qed

lemma stringify_notes_nonempty: "stringify_notes ns \<noteq> []"
  by (simp add: stringify_notes_def)

lemma as_strings_JStr: "as_strings (map JStr ts) = Some ts"
  by (induction ts) simp_all

lemma note_of_json_of_note: "note_of_json (json_of_note n) = Some n"
  by (cases n) (simp add: json_of_note_def as_strings_JStr)

lemma notes_of_json_of_notes: "notes_of_json (json_of_notes ns) = Some ns"
proof -
  have "notes_of_jsons (map json_of_note ns) = Some ns"
    by (induction ns) (simp_all add: note_of_json_of_note)
  then show ?thesis by (simp add: json_of_notes_def)
qed

lemma stringify_strings_inj:
  assumes "stringify_strings a = stringify_strings b"
  shows "a = b"
proof -
  have "parse_value (length a + length b + 2) (stringify_strings a @ []) = Some (JArr (map JStr a), [])"
    by (rule parse_value_strings) simp
  moreover have "parse_value (length a + length b + 2) (stringify_strings b @ []) = Some (JArr (map JStr b), [])"
    by (rule parse_value_strings) simp
  ultimately have "map JStr a = map JStr b" using assms by simp
  then show ?thesis by (simp add: inj_def)
qed

section \<open>Loading the collection\<close>

text \<open>
  C1 (as the program has it). When the stored value is absent or the empty string,
  \<open>load\<close> returns the seeded collection, which holds the welcome note and nothing
  else. When a value is stored and not empty, \<open>load\<close> returns what \<^verbatim>\<open>JSON.parse\<close>
  makes of it, and when the value does not parse, the \<^verbatim>\<open>SyntaxError\<close> goes to the
  caller: nothing catches it.
\<close>

theorem load_cases:
  "(storage ''nebula-notes'' = None \<or> storage ''nebula-notes'' = Some [] \<longrightarrow>
      load storage now = Inr (json_of_notes (INITIAL_NOTES now)))
   \<and> (storage ''nebula-notes'' = Some saved \<and> saved \<noteq> [] \<longrightarrow>
      load storage now = (case JSON_parse saved of None \<Rightarrow> Inl SyntaxError | Some v \<Rightarrow> Inr v))
   \<and> length (INITIAL_NOTES now) = 1
   \<and> map title (INITIAL_NOTES now) = [''Welcome to Nebula Notes'']
   \<and> notes_of_json (json_of_notes (INITIAL_NOTES now)) = Some (INITIAL_NOTES now)"
  by (auto simp: load_def INITIAL_NOTES_def notes_of_json_of_notes split: option.splits)

theorem load_cases_witness:
  "load Map.empty 7 = Inr (json_of_notes (INITIAL_NOTES 7))
   \<and> load (persist example_notes Map.empty) 7 = Inr (json_of_notes example_notes)"
proof -
  have s: "(persist example_notes Map.empty) ''nebula-notes'' = Some (stringify_notes example_notes)"
    by (simp add: persist_def)
  show ?thesis
    using load_cases [of Map.empty 7 "[]"]
      load_cases [of "persist example_notes Map.empty" 7 "stringify_notes example_notes"]
    by (simp add: s stringify_notes_nonempty JSON_parse_stringify_notes)
qed

text \<open>
  The claim as stated fails on a stored text that is not JSON: the error is not caught
  and no seeded collection is returned.
\<close>

theorem load_unparseable_counterexample:
  "load (Map.empty(''nebula-notes'' \<mapsto> ''{oops'')) 7 = Inl SyntaxError"
proof -
  have "JSON_parse ''{oops'' = None" by code_simp
  then show ?thesis by (simp add: load_def)
qed

section \<open>Splicing the result of a transform\<close>

text \<open>
  When a transform returns and the selection of the text area is the same when the
  call resolves as when it was started, the result replaces exactly the selected span
  \<open>[start, end)\<close> of the content the action was started with: the prefix before
  \<open>start\<close> and the suffix from \<open>end\<close> are kept. With no selection, \<open>summarize\<close>
  appends the section headed \<^verbatim>\<open>### Summary\<close> to the current content and the other
  transforms replace the whole content by the result.
\<close>

theorem splice_policy:
  assumes "action = summarize \<or> action = fix_grammar \<or> action = elaborate"
    and "processAIAction e svc action (ed_content s0) (selected_text contentRef (ed_content s0)) = (ev, Inr result)"
  shows "(contentRef = Some ta \<and> selectionStart ta < selectionEnd ta \<and> selectionEnd ta \<le> length (ed_content s0)
          \<and> later = ta \<longrightarrow>
            map_option ed_content (snd (handleAIAction e svc now action contentRef later s0 s1))
              = Some (take (selectionStart ta) (ed_content s0) @ result @ drop (selectionEnd ta) (ed_content s0)))
         \<and> (contentRef = None \<or> (\<exists>ta. contentRef = Some ta \<and> selectionStart ta = selectionEnd ta) \<longrightarrow>
            map_option ed_content (snd (handleAIAction e svc now action contentRef later s0 s1))
              = Some (if action = summarize
                      then ed_content s1 @ [CHR 0x0A, CHR 0x0A] @ ''### Summary'' @ [CHR 0x0A] @ result
                      else result))"
proof -
  note h = handleAIAction_succeeded [OF assms, of now later s1]
  show ?thesis
  proof (intro conjI impI)
    assume a: "contentRef = Some ta \<and> selectionStart ta < selectionEnd ta
          \<and> selectionEnd ta \<le> length (ed_content s0) \<and> later = ta"
    then have n: "selected_text contentRef (ed_content s0) \<noteq> []" and r: "contentRef \<noteq> None"
      using selected_text_span(2) [of ta "ed_content s0"] by simp_all
    have "substring (ed_content s0) 0 (selectionStart later) = take (selectionStart ta) (ed_content s0)"
      using a by (simp add: substring_def Let_def min_def max_def)
    moreover have "substring_from (ed_content s0) (selectionEnd later) = drop (selectionEnd ta) (ed_content s0)"
      using a by (simp add: substring_from_def min_def)
    ultimately show "map_option ed_content (snd (handleAIAction e svc now action contentRef later s0 s1))
              = Some (take (selectionStart ta) (ed_content s0) @ result @ drop (selectionEnd ta) (ed_content s0))"
      unfolding h using n r by (simp add: ed_content_setContent)
  next
    assume "contentRef = None \<or> (\<exists>ta. contentRef = Some ta \<and> selectionStart ta = selectionEnd ta)"
    then have n: "selected_text contentRef (ed_content s0) = []"
      by (auto simp: selected_text_def)
    show "map_option ed_content (snd (handleAIAction e svc now action contentRef later s0 s1))
              = Some (if action = summarize
                      then ed_content s1 @ [CHR 0x0A, CHR 0x0A] @ ''### Summary'' @ [CHR 0x0A] @ result
                      else result)"
      unfolding h using n by (simp add: ed_content_setContent)
  qed
qed

lemma example_call:
  "processAIAction \<lparr>API_KEY = Some ''k''\<rparr> (\<lambda>k r. Inr (Some ''X'')) fix_grammar
      (ed_content (mount 0 example_note))
      (selected_text (Some \<lparr>selectionStart = 2, selectionEnd = 4\<rparr>) (ed_content (mount 0 example_note)))
     = ([Request \<lparr>model_name = MODEL_NAME,
                  contents = ''Correct the grammar and spelling of the following text. Preserve the original meaning and tone. Return only the corrected text:''
                             @ [CHR 0x0A, CHR 0x0A] @ ''cd'',
                  json_array = False\<rparr>], Inr ''X'')"
  by (simp add: processAIAction_def getAIClient_def trim_def is_space_def Let_def
      selected_text_def substring_def mount_def schedule_def example_note_def)

lemma example_mounted: "ed_content (mount 0 example_note) = ''abcdef''"
  by (simp add: mount_def schedule_def example_note_def)

theorem splice_policy_witness:
  "map_option ed_content
     (snd (handleAIAction \<lparr>API_KEY = Some ''k''\<rparr> (\<lambda>k r. Inr (Some ''X'')) 5 fix_grammar
             (Some \<lparr>selectionStart = 2, selectionEnd = 4\<rparr>) \<lparr>selectionStart = 2, selectionEnd = 4\<rparr>
             (mount 0 example_note) (handleAIAction_begin (mount 0 example_note))))
   = Some ''abXef''"
  using splice_policy [OF _ example_call, of "\<lparr>selectionStart = 2, selectionEnd = 4\<rparr>"
      "\<lparr>selectionStart = 2, selectionEnd = 4\<rparr>" 5 "handleAIAction_begin (mount 0 example_note)"]
  by (simp add: example_mounted)

text \<open>
  C2. The claim has the result replace the characters at the offsets captured before the
  call. The handler takes the selected text from those offsets, but after the call it
  reads \<^verbatim>\<open>selectionStart\<close> and \<^verbatim>\<open>selectionEnd\<close> of the text area again. Here the
  span 2..4 (\<open>cd\<close>) of \<open>abcdef\<close> is sent for correction, the caret stands at 5 when
  the answer \<open>X\<close> arrives, and the new content is \<open>abcdeXf\<close>: the answer is inserted
  at the caret and the selected text stays, where the claim gives \<open>abXef\<close>.
\<close>

theorem splice_reads_selection_after_call:
  "map_option ed_content
     (snd (handleAIAction \<lparr>API_KEY = Some ''k''\<rparr> (\<lambda>k r. Inr (Some ''X'')) 5 fix_grammar
             (Some \<lparr>selectionStart = 2, selectionEnd = 4\<rparr>) \<lparr>selectionStart = 5, selectionEnd = 5\<rparr>
             (mount 0 example_note) (handleAIAction_begin (mount 0 example_note))))
   = Some ''abcdeXf''"
proof -
  have s: "selected_text (Some \<lparr>selectionStart = 2, selectionEnd = 4\<rparr>) ''abcdef'' = ''cd''"
    by (simp add: selected_text_def substring_def)
  note h = handleAIAction_succeeded [OF _ example_call, of "5" "\<lparr>selectionStart = 5, selectionEnd = 5\<rparr>"
      "handleAIAction_begin (mount 0 example_note)"]
  have "fix_grammar = summarize \<or> fix_grammar = fix_grammar \<or> fix_grammar = elaborate" by simp
  from h [OF this] show ?thesis
    by (simp add: s example_mounted ed_content_setContent substring_def substring_from_def)
qed

section \<open>A missing credential\<close>

text \<open>
  C3 (as the program has it). With the API credential missing (undefined or empty),
  \<open>processAIAction\<close>, which serves summarize, fix_grammar and elaborate, fails at once
  with the error that names the missing key, before any request and whatever the
  content; \<open>generateNoteTitle\<close> and \<open>generateNoteTags\<close>, called with content that is not
  blank, catch that error, log it, and return the default title and the empty list.
\<close>

theorem missing_credential:
  assumes "API_KEY e = None \<or> API_KEY e = Some []"
  shows "processAIAction e svc action cont selectedText =
           ([ConsoleError ''API Key not found in environment variables''],
            Inl (Error ''API Key is missing. Please ensure process.env.API_KEY is available.''))
         \<and> (trim cont \<noteq> [] \<longrightarrow>
              generateNoteTitle e svc cont =
                ([ConsoleError ''API Key not found in environment variables'',
                  ConsoleError ''Error generating title:''], ''Untitled Note'')
              \<and> generateNoteTags e svc cont =
                ([ConsoleError ''API Key not found in environment variables'',
                  ConsoleError ''Error generating tags:''], JArr []))"
  using getAIClient_missing [OF assms]
  by (simp add: processAIAction_def generateNoteTitle_def generateNoteTags_def)

theorem missing_credential_witness:
  "processAIAction \<lparr>API_KEY = None\<rparr> (\<lambda>k r. Inr (Some ''A title'')) summarize ''some text'' [] =
           ([ConsoleError ''API Key not found in environment variables''],
            Inl (Error ''API Key is missing. Please ensure process.env.API_KEY is available.''))
   \<and> generateNoteTags \<lparr>API_KEY = None\<rparr> (\<lambda>k r. Inr (Some ''A title'')) ''some text'' =
                ([ConsoleError ''API Key not found in environment variables'',
                  ConsoleError ''Error generating tags:''], JArr [])"
proof -
  have t: "trim ''some text'' \<noteq> []" by (simp add: trim_def is_space_def)
  show ?thesis
    using missing_credential [of "\<lparr>API_KEY = None\<rparr>" "\<lambda>k r. Inr (Some ''A title'')" summarize "''some text''" "[]"] t
    by simp
qed

text \<open>
  The claim as stated fails for the title: with no credential and the content
  \<open>some text\<close> the call returns the default title.
\<close>

theorem missing_credential_counterexample:
  "generateNoteTitle \<lparr>API_KEY = None\<rparr> (\<lambda>k r. Inr (Some ''A title'')) ''some text'' =
     ([ConsoleError ''API Key not found in environment variables'',
       ConsoleError ''Error generating title:''], ''Untitled Note'')"
  by (simp add: generateNoteTitle_def getAIClient_def trim_def is_space_def)

section \<open>Deletion and the selection\<close>

text \<open>
  C4. Deleting the selected note moves the selection to the first note of the resulting
  collection, or to no selection when that collection is empty; deleting a note that is
  not selected removes the entry (every other note stays, in order) and leaves the
  selection as it was.
\<close>

theorem deleteNote_selection:
  "notes (deleteNote i s) = filter (\<lambda>n. note_id n \<noteq> i) (notes s)
   \<and> i \<notin> note_id ` set (notes (deleteNote i s))
   \<and> (activeNoteId s = Some i \<longrightarrow>
        activeNoteId (deleteNote i s) =
          (case notes (deleteNote i s) of [] \<Rightarrow> None | n # _ \<Rightarrow> Some (note_id n)))
   \<and> (activeNoteId s \<noteq> Some i \<longrightarrow> activeNoteId (deleteNote i s) = activeNoteId s)"
  by (auto simp: deleteNote_def Let_def)

theorem deleteNote_selection_witness:
  "activeNoteId (deleteNote ''a''
      \<lparr>notes = [\<lparr>note_id = ''a'', title = ''A'', content = [], tags = [], createdAt = 1, updatedAt = 1\<rparr>,
                \<lparr>note_id = ''b'', title = ''B'', content = [], tags = [], createdAt = 2, updatedAt = 2\<rparr>],
       activeNoteId = Some ''a'', searchQuery = [], isSidebarOpen = False\<rparr>) = Some ''b''
   \<and> activeNoteId (deleteNote ''b''
      \<lparr>notes = [\<lparr>note_id = ''a'', title = ''A'', content = [], tags = [], createdAt = 1, updatedAt = 1\<rparr>,
                \<lparr>note_id = ''b'', title = ''B'', content = [], tags = [], createdAt = 2, updatedAt = 2\<rparr>],
       activeNoteId = Some ''a'', searchQuery = [], isSidebarOpen = False\<rparr>) = Some ''a''
   \<and> activeNoteId (deleteNote ''a''
      \<lparr>notes = [\<lparr>note_id = ''a'', title = ''A'', content = [], tags = [], createdAt = 1, updatedAt = 1\<rparr>],
       activeNoteId = Some ''a'', searchQuery = [], isSidebarOpen = False\<rparr>) = None"
  using deleteNote_selection [of "''a''"
      "\<lparr>notes = [\<lparr>note_id = ''a'', title = ''A'', content = [], tags = [], createdAt = 1, updatedAt = 1\<rparr>,
                \<lparr>note_id = ''b'', title = ''B'', content = [], tags = [], createdAt = 2, updatedAt = 2\<rparr>],
       activeNoteId = Some ''a'', searchQuery = [], isSidebarOpen = False\<rparr>"]
    deleteNote_selection [of "''b''"
      "\<lparr>notes = [\<lparr>note_id = ''a'', title = ''A'', content = [], tags = [], createdAt = 1, updatedAt = 1\<rparr>,
                \<lparr>note_id = ''b'', title = ''B'', content = [], tags = [], createdAt = 2, updatedAt = 2\<rparr>],
       activeNoteId = Some ''a'', searchQuery = [], isSidebarOpen = False\<rparr>"]
    deleteNote_selection [of "''a''"
      "\<lparr>notes = [\<lparr>note_id = ''a'', title = ''A'', content = [], tags = [], createdAt = 1, updatedAt = 1\<rparr>],
       activeNoteId = Some ''a'', searchQuery = [], isSidebarOpen = False\<rparr>"]
  by simp

section \<open>The debounced save\<close>

lemma stringify_strings_eq_iff: "stringify_strings a = stringify_strings b \<longleftrightarrow> a = b"
  using stringify_strings_inj by auto

lemma armed_apply_edit:
  assumes "changes e s"
  shows "armed t (apply_edit t e s)"
  using assms by (cases e) (simp_all add: armed_def setTitle_def setContent_def setTags_def schedule_def)

lemma ed_note_apply_edit: "ed_note (apply_edit t e s) = ed_note s"
  by (cases e) (simp_all add: setTitle_def setContent_def setTags_def schedule_def)

lemma advance_before:
  assumes "armed t s" and "T < t + 1000"
  shows "advance T (s, c) = (s, c)"
  using assms by (auto simp: advance_def armed_def split: option.splits)

lemma advance_after:
  assumes "armed t s" and "t + 1000 \<le> T"
  shows "advance T (s, c) =
           (if dirty s
            then (s\<lparr>handler := None, ed_note := committed (t + 1000) s, lastSaved := t + 1000\<rparr>,
                  c @ [committed (t + 1000) s])
            else (s\<lparr>handler := None\<rparr>, c))"
  using assms
  by (auto simp: advance_def armed_def timeout_callback_def handleSave_def dirty_def committed_def
      stringify_strings_eq_iff Let_def split: option.splits)

lemma advance_idle:
  assumes "handler s = None"
  shows "advance T (s, c) = (s, c)"
  using assms by (simp add: advance_def)

lemma run_burst:
  assumes "armed t s" and "burst t s es"
  shows "snd (run es (s, c)) = c \<and> armed (last_time t es) (fst (run es (s, c)))
         \<and> ed_note (fst (run es (s, c))) = ed_note s"
  using assms
proof (induction es arbitrary: t s)
  case Nil
  then show ?case by simp
next
  case (Cons x es)
  obtain t' e where x: "x = (t', e)" by (cases x)
  from Cons.prems x have b: "t \<le> t'" "t' < t + 1000" "changes e s" "burst t' (apply_edit t' e s) es"
    by simp_all
  have a: "advance t' (s, c) = (s, c)"
    using advance_before [OF Cons.prems(1) b(2)] .
  have "armed t' (apply_edit t' e s)" using b(3) by (rule armed_apply_edit)
  from Cons.IH [OF this b(4)] show ?case
    by (simp add: x a ed_note_apply_edit)
qed

lemma advance_clean:
  assumes "clean s"
  shows "snd (advance T (s, [])) = [] \<and> ed_note (fst (advance T (s, []))) = ed_note s
         \<and> ed_title (fst (advance T (s, []))) = ed_title s
         \<and> ed_content (fst (advance T (s, []))) = ed_content s
         \<and> ed_tags (fst (advance T (s, []))) = ed_tags s"
  using assms
  by (auto simp: advance_def clean_def timeout_callback_def split: option.splits)

lemma changes_cong:
  "ed_title s' = ed_title s \<Longrightarrow> ed_content s' = ed_content s \<Longrightarrow> changes e s' = changes e s"
  by (cases e) simp_all

lemma advance_clean_cases:
  assumes "clean s"
  shows "advance T (s, []) = (s, []) \<or> advance T (s, []) = (s\<lparr>handler := None\<rparr>, [])"
  using assms
  by (auto simp: advance_def clean_def timeout_callback_def split: option.splits)

lemma apply_edit_handler:
  assumes "changes e s"
  shows "apply_edit t e (s\<lparr>handler := h\<rparr>) = apply_edit t e s"
  using assms by (cases e) (simp_all add: setTitle_def setContent_def setTags_def schedule_def)

lemma run_first_edit:
  assumes "clean s0" and "changes e1 s0"
  shows "run ((t1, e1) # es) (s0, []) = run es (apply_edit t1 e1 s0, [])"
  using advance_clean_cases [OF assms(1), of t1] apply_edit_handler [OF assms(2), of t1 None]
  by auto

text \<open>
  C5 (as the program has it). Take an editor whose buffer is the committed note, and a
  burst of edits that change the buffer, each less than 1000 ms after the one before.
  No commit happens during the burst, nor at any time before 1000 ms have passed since
  its last edit. Once 1000 ms have passed, the timeout has run: if the buffer then
  differs from the committed note (in the title, the content or the tags) exactly one
  commit has been made, of the buffer, stamped with the time the timeout ran, which is
  after the last edit; if the buffer is back at the committed note, no commit is made.
  Nothing more is committed afterwards without a further edit.
\<close>

theorem debounced_commit:
  assumes "clean s0" and "changes e1 s0" and "burst t1 (apply_edit t1 e1 s0) es"
  shows "snd (run ((t1, e1) # es) (s0, [])) = []
         \<and> ed_note (fst (run ((t1, e1) # es) (s0, []))) = ed_note s0
         \<and> (\<forall>T. T < last_time t1 es + 1000 \<longrightarrow> snd (advance T (run ((t1, e1) # es) (s0, []))) = [])
         \<and> (\<forall>T. last_time t1 es + 1000 \<le> T \<longrightarrow>
               snd (advance T (run ((t1, e1) # es) (s0, []))) =
                 (if dirty (fst (run ((t1, e1) # es) (s0, [])))
                  then [committed (last_time t1 es + 1000) (fst (run ((t1, e1) # es) (s0, [])))]
                  else [])
               \<and> (\<forall>T'. snd (advance T' (advance T (run ((t1, e1) # es) (s0, []))))
                         = snd (advance T (run ((t1, e1) # es) (s0, [])))))"
proof -
  define final where "final = run ((t1, e1) # es) (s0, [])"
  have f: "final = run es (apply_edit t1 e1 s0, [])"
    unfolding final_def by (rule run_first_edit [OF assms(1,2)])
  have a1: "armed t1 (apply_edit t1 e1 s0)" using assms(2) by (rule armed_apply_edit)
  obtain sF where p: "final = (sF, [])"
    using run_burst [OF a1 assms(3), of "[]"] by (cases final) (simp add: f)
  from run_burst [OF a1 assms(3), of "[]"]
  have a: "armed (last_time t1 es) sF" and n: "ed_note sF = ed_note s0"
    by (simp_all add: f [symmetric] p ed_note_apply_edit)
  have before: "snd (advance T final) = []" if "T < last_time t1 es + 1000" for T
    using advance_before [OF a that, of "[]"] by (simp add: p)
  have after: "advance T final =
           (if dirty sF
            then (sF\<lparr>handler := None, ed_note := committed (last_time t1 es + 1000) sF,
                      lastSaved := last_time t1 es + 1000\<rparr>,
                  [committed (last_time t1 es + 1000) sF])
            else (sF\<lparr>handler := None\<rparr>, []))" if "last_time t1 es + 1000 \<le> T" for T
    using advance_after [OF a that, of "[]"] by (simp add: p)
  have idle: "snd (advance T' (advance T final)) = snd (advance T final)"
    if "last_time t1 es + 1000 \<le> T" for T T'
    by (simp add: after [OF that] advance_idle)
  have "snd final = []" "fst final = sF" by (simp_all add: p)
  then show ?thesis
    unfolding final_def [symmetric]
    using n before after idle by simp
qed

lemma example_clean: "clean (mount 0 example_note)"
  by (simp add: clean_def mount_def schedule_def)

lemma example_run:
  "run [(100, SetTitle ''Tx''), (600, SetContent ''abcdefg'')] (mount 0 example_note, [])
     = (\<lparr>ed_note = example_note, ed_title = ''Tx'', ed_content = ''abcdefg'', ed_tags = [''x''],
         isProcessingAI = False, showAITools = False, lastSaved = 1,
         handler = Some \<lparr>due = 1600, p_note = example_note, p_title = ''Tx'', p_content = ''abcdefg'',
                           p_tags = [''x'']\<rparr>\<rparr>, [])"
  by (simp add: mount_def schedule_def advance_def setTitle_def setContent_def example_note_def)

theorem debounced_commit_witness:
  "snd (run [(100, SetTitle ''Tx''), (600, SetContent ''abcdefg'')] (mount 0 example_note, [])) = []
   \<and> snd (advance 1599 (run [(100, SetTitle ''Tx''), (600, SetContent ''abcdefg'')] (mount 0 example_note, []))) = []
   \<and> snd (advance 1600 (run [(100, SetTitle ''Tx''), (600, SetContent ''abcdefg'')] (mount 0 example_note, [])))
       = [\<lparr>note_id = ''n1'', title = ''Tx'', content = ''abcdefg'', tags = [''x''], createdAt = 1, updatedAt = 1600\<rparr>]"
proof -
  have c: "changes (SetTitle ''Tx'') (mount 0 example_note)"
    by (simp add: mount_def schedule_def example_note_def)
  have b: "burst 100 (apply_edit 100 (SetTitle ''Tx'') (mount 0 example_note)) [(600, SetContent ''abcdefg'')]"
    by (simp add: mount_def schedule_def setTitle_def example_note_def)
  have d: "dirty (fst (run [(100, SetTitle ''Tx''), (600, SetContent ''abcdefg'')] (mount 0 example_note, [])))"
    unfolding example_run by (simp add: dirty_def example_note_def)
  have m: "committed 1600 (fst (run [(100, SetTitle ''Tx''), (600, SetContent ''abcdefg'')] (mount 0 example_note, [])))
           = \<lparr>note_id = ''n1'', title = ''Tx'', content = ''abcdefg'', tags = [''x''], createdAt = 1, updatedAt = 1600\<rparr>"
    unfolding example_run by (simp add: committed_def example_note_def)
  from debounced_commit [OF example_clean c b] d m show ?thesis
    by simp
qed

text \<open>
  The claim as stated fails when the edits lead back to the committed note: the title
  \<open>T\<close> is changed to \<open>Tx\<close> and back within 500 ms; the timeout finds the buffer
  equal to the note and saves nothing.
\<close>

theorem debounce_counterexample:
  "snd (advance 5000 (run [(100, SetTitle ''Tx''), (600, SetTitle ''T'')] (mount 0 example_note, []))) = []"
  by (simp add: mount_def schedule_def advance_def setTitle_def timeout_callback_def example_note_def)

section \<open>Tags\<close>

lemma array_from_set_acc:
  "distinct acc \<Longrightarrow>
   distinct (foldl (\<lambda>acc x. if x \<in> set acc then acc else acc @ [x]) acc xs)
   \<and> set (foldl (\<lambda>acc x. if x \<in> set acc then acc else acc @ [x]) acc xs) = set acc \<union> set xs"
  by (induction xs arbitrary: acc) auto

lemma distinct_array_from_set: "distinct (array_from_set xs)"
  using array_from_set_acc [of "[]" xs] by (simp add: array_from_set_def)

lemma set_array_from_set: "set (array_from_set xs) = set xs"
  using array_from_set_acc [of "[]" xs] by (simp add: array_from_set_def)

lemma tags_ok_schedule:
  "distinct (ed_tags s) \<Longrightarrow> distinct (tags (ed_note s)) \<Longrightarrow> tags_ok (schedule now s)"
  by (simp add: tags_ok_def schedule_def)

lemma tags_ok_setTitle: "tags_ok s \<Longrightarrow> tags_ok (setTitle now v s)"
  by (auto simp: setTitle_def intro!: tags_ok_schedule) (auto simp: tags_ok_def)

lemma tags_ok_setContent: "tags_ok s \<Longrightarrow> tags_ok (setContent now v s)"
  by (auto simp: setContent_def intro!: tags_ok_schedule) (auto simp: tags_ok_def)

lemma tags_ok_setTags: "tags_ok s \<Longrightarrow> distinct ts \<Longrightarrow> tags_ok (setTags now ts s)"
  by (auto simp: setTags_def intro!: tags_ok_schedule) (auto simp: tags_ok_def)

lemma tags_ok_flag: "tags_ok s \<Longrightarrow> tags_ok (s\<lparr>isProcessingAI := b\<rparr>)"
  by (simp add: tags_ok_def)

lemma tags_ok_mount: "distinct (tags n) \<Longrightarrow> tags_ok (mount now n)"
  by (simp add: mount_def tags_ok_def schedule_def)

lemma tags_ok_handleTagInput:
  assumes "tags_ok s"
  shows "tags_ok (fst (handleTagInput now key field s))"
proof (cases "key = ''Enter'' \<and> trim field \<noteq> [] \<and> trim field \<notin> set (ed_tags s)")
  case True
  then have "distinct (ed_tags s @ [trim field])"
    using assms by (simp add: tags_ok_def)
  from tags_ok_setTags [OF assms this] True show ?thesis
    by (simp add: handleTagInput_def Let_def)
next
  case False
  with assms show ?thesis
    by (auto simp: handleTagInput_def Let_def)
qed

lemma tags_ok_removeTag: "tags_ok s \<Longrightarrow> tags_ok (removeTag now t s)"
  unfolding removeTag_def by (rule tags_ok_setTags) (simp_all add: tags_ok_def)

lemma tags_ok_timeout: "tags_ok s \<Longrightarrow> tags_ok (fst (timeout_callback now s))"
  by (auto simp: timeout_callback_def handleSave_def tags_ok_def Let_def split: option.splits)

lemma tags_ok_handleAIAction:
  assumes "tags_ok s1" and "handleAIAction e svc now action contentRef later s0 s1 = (ev, Some s')"
  shows "tags_ok s'"
proof -
  consider "action = generate_tags" | "action = generate_title"
    | "action \<noteq> generate_tags \<and> action \<noteq> generate_title" by blast
  then show ?thesis
  proof cases
    case 1
    with assms show ?thesis
      by (auto simp: handleAIAction_def distinct_array_from_set
          split: prod.splits option.splits if_splits
          intro!: tags_ok_flag tags_ok_setTags)
  next
    case 2
    with assms show ?thesis
      by (auto simp: handleAIAction_def split: prod.splits
          intro!: tags_ok_flag tags_ok_setTitle)
  next
    case 3
    with assms show ?thesis
      by (auto simp: handleAIAction_def Let_def split: prod.splits sum.splits if_splits
          intro!: tags_ok_flag tags_ok_setContent)
  qed
qed

lemma reachable_tags_ok: "reachable s \<Longrightarrow> tags_ok s"
proof (induction rule: reachable.induct)
  case (mount_welcome n t now)
  then show ?case by (auto simp: INITIAL_NOTES_def intro!: tags_ok_mount)
next
  case (mount_new now uuid t)
  then show ?case by (auto simp: newNote_def intro!: tags_ok_mount)
next
  case (ai_started s)
  then show ?case by (simp add: handleAIAction_begin_def tags_ok_def)
next
  case (mounted_again s now)
  then have "distinct (tags (ed_note s))" by (simp add: tags_ok_def)
  then show ?case by (rule tags_ok_mount)
qed (auto intro: tags_ok_setTitle tags_ok_setContent tags_ok_handleTagInput tags_ok_removeTag
      tags_ok_timeout tags_ok_handleAIAction)

text \<open>
  C6. In every state the editor can reach the tag list of the buffer has no duplicates
  (equality of strings, which distinguishes case), and every tag operation keeps it so.
  Add-on-enter trims the field, and appends the trimmed text when it is not empty and not
  yet a tag; otherwise (another key, an empty text, a tag that is already there) the
  state and the field stay as they are. Remove keeps exactly the tags that differ from
  the removed one, so removing a tag that is not there leaves the list as it is. The
  merge of generated tags leaves a list without duplicates.
\<close>

theorem tags_have_no_duplicates:
  "(reachable s \<longrightarrow> distinct (ed_tags s))
   \<and> handleTagInput now key field s =
       (if key = ''Enter'' \<and> trim field \<noteq> [] \<and> trim field \<notin> set (ed_tags s)
        then (setTags now (ed_tags s @ [trim field]) s, [])
        else (s, field))
   \<and> ed_tags (setTags now (ed_tags s @ [trim field]) s) = ed_tags s @ [trim field]
   \<and> ed_tags (removeTag now t s) = filter (\<lambda>tag. tag \<noteq> t) (ed_tags s)
   \<and> (t \<notin> set (ed_tags s) \<longrightarrow> ed_tags (removeTag now t s) = ed_tags s)
   \<and> (distinct (ed_tags s) \<longrightarrow>
        distinct (ed_tags (fst (handleTagInput now key field s))) \<and> distinct (ed_tags (removeTag now t s)))
   \<and> (distinct (ed_tags s1) \<and> handleAIAction e svc now generate_tags contentRef later s0 s1 = (ev, Some s')
        \<longrightarrow> distinct (ed_tags s'))"
proof (intro conjI)
  show "reachable s \<longrightarrow> distinct (ed_tags s)"
    using reachable_tags_ok [of s] by (simp add: tags_ok_def)
  show "handleTagInput now key field s =
       (if key = ''Enter'' \<and> trim field \<noteq> [] \<and> trim field \<notin> set (ed_tags s)
        then (setTags now (ed_tags s @ [trim field]) s, [])
        else (s, field))"
    by (simp add: handleTagInput_def Let_def)
  show "ed_tags (setTags now (ed_tags s @ [trim field]) s) = ed_tags s @ [trim field]"
    by (simp add: setTags_def schedule_def)
  show "ed_tags (removeTag now t s) = filter (\<lambda>tag. tag \<noteq> t) (ed_tags s)"
    by (simp add: removeTag_def setTags_def schedule_def)
  show "t \<notin> set (ed_tags s) \<longrightarrow> ed_tags (removeTag now t s) = ed_tags s"
    by (auto simp: removeTag_def setTags_def schedule_def filter_id_conv)
  show "distinct (ed_tags s) \<longrightarrow>
        distinct (ed_tags (fst (handleTagInput now key field s))) \<and> distinct (ed_tags (removeTag now t s))"
    by (simp add: handleTagInput_def removeTag_def Let_def setTags_def schedule_def)
  show "distinct (ed_tags s1) \<and> handleAIAction e svc now generate_tags contentRef later s0 s1 = (ev, Some s')
        \<longrightarrow> distinct (ed_tags s')"
    by (auto simp: handleAIAction_def distinct_array_from_set setTags_def schedule_def
        split: prod.splits option.splits if_splits)
qed

lemma welcome_reachable: "reachable (mount 0 welcome_note)"
  unfolding welcome_note_def by (rule reachable.mount_welcome) (simp add: INITIAL_NOTES_def)

lemma welcome_tags: "ed_tags (mount 0 welcome_note) = [''welcome'', ''tutorial'']"
  by (simp add: welcome_note_def INITIAL_NOTES_def mount_def schedule_def)

lemma trim_work: "trim ''  work '' = ''work''"
  by (simp add: trim_def is_space_def)

lemma trim_welcome: "trim '' welcome '' = ''welcome''"
  by (simp add: trim_def is_space_def)

lemma merge_example:
  "map_option ed_tags
     (snd (handleAIAction \<lparr>API_KEY = Some ''k''\<rparr> tags_service 5 generate_tags None
             \<lparr>selectionStart = 0, selectionEnd = 0\<rparr> (mount 0 welcome_note) (handleAIAction_begin (mount 0 welcome_note))))
   = Some [''welcome'', ''tutorial'', ''work'']"
  by code_simp

theorem tags_have_no_duplicates_witness:
  "distinct (ed_tags (mount 0 welcome_note))
   \<and> handleTagInput 5 ''Enter'' ''  work '' (mount 0 welcome_note)
       = (setTags 5 ([''welcome'', ''tutorial''] @ [''work'']) (mount 0 welcome_note), [])
   \<and> handleTagInput 5 ''Enter'' '' welcome '' (mount 0 welcome_note) = (mount 0 welcome_note, '' welcome '')
   \<and> ed_tags (removeTag 5 ''absent'' (mount 0 welcome_note)) = [''welcome'', ''tutorial'']
   \<and> distinct (ed_tags (fst (handleTagInput 5 ''Enter'' ''  work '' (mount 0 welcome_note))))
   \<and> (\<exists>s'. snd (handleAIAction \<lparr>API_KEY = Some ''k''\<rparr> tags_service 5 generate_tags None
             \<lparr>selectionStart = 0, selectionEnd = 0\<rparr> (mount 0 welcome_note) (handleAIAction_begin (mount 0 welcome_note)))
           = Some s' \<and> ed_tags s' = [''welcome'', ''tutorial'', ''work''] \<and> distinct (ed_tags s'))"
proof -
  note w = tags_have_no_duplicates [where s = "mount 0 welcome_note" and now = 5 and key = "''Enter''"
      and field = "''  work ''" and t = "''absent''"]
  note d = tags_have_no_duplicates [where s = "mount 0 welcome_note" and now = 5 and key = "''Enter''"
      and field = "'' welcome ''" and t = "''absent''"]
  obtain ev s' where h: "handleAIAction \<lparr>API_KEY = Some ''k''\<rparr> tags_service 5 generate_tags None
             \<lparr>selectionStart = 0, selectionEnd = 0\<rparr> (mount 0 welcome_note) (handleAIAction_begin (mount 0 welcome_note))
           = (ev, Some s')" and t: "ed_tags s' = [''welcome'', ''tutorial'', ''work'']"
    using merge_example
    by (cases "handleAIAction \<lparr>API_KEY = Some ''k''\<rparr> tags_service 5 generate_tags None
             \<lparr>selectionStart = 0, selectionEnd = 0\<rparr> (mount 0 welcome_note) (handleAIAction_begin (mount 0 welcome_note))")
       auto
  have b: "distinct (ed_tags (handleAIAction_begin (mount 0 welcome_note)))"
    by (simp add: handleAIAction_begin_def welcome_tags)
  note m = tags_have_no_duplicates [where ?s1.0 = "handleAIAction_begin (mount 0 welcome_note)"
      and e = "\<lparr>API_KEY = Some ''k''\<rparr>" and svc = tags_service and now = 5 and contentRef = None
      and later = "\<lparr>selectionStart = 0, selectionEnd = 0\<rparr>" and ?s0.0 = "mount 0 welcome_note"
      and ev = ev and s' = s']
  from m b h have "distinct (ed_tags s')" by blast
  with w d welcome_reachable h t show ?thesis
    by (simp add: welcome_tags trim_work trim_welcome)
qed

section \<open>The search filter\<close>

lemma startsAt_iff: "startsAt q s \<longleftrightarrow> (\<exists>post. s = q @ post)"
  by (induction q s rule: startsAt.induct) auto

lemma includes_js_iff: "includes_js s q \<longleftrightarrow> (\<exists>pre post. s = pre @ q @ post)"
proof (induction s)
  case Nil
  then show ?case by simp
next
  case (Cons c cs)
  show ?case
  proof
    assume "includes_js (c # cs) q"
    then consider "startsAt q (c # cs)" | "includes_js cs q" by auto
    then show "\<exists>pre post. c # cs = pre @ q @ post"
    proof cases
      case 1
      then obtain post where "c # cs = q @ post" by (auto simp: startsAt_iff)
      then have "c # cs = [] @ q @ post" by simp
      then show ?thesis by blast
    next
      case 2
      then obtain pre post where "cs = pre @ q @ post" using Cons.IH by auto
      then have "c # cs = (c # pre) @ q @ post" by simp
      then show ?thesis by blast
    qed
  next
    assume "\<exists>pre post. c # cs = pre @ q @ post"
    then obtain pre post where e: "c # cs = pre @ q @ post" by auto
    show "includes_js (c # cs) q"
    proof (cases pre)
      case Nil
      with e have "startsAt q (c # cs)" by (auto simp: startsAt_iff)
      then show ?thesis by simp
    next
      case (Cons p ps)
      with e have "cs = ps @ q @ post" by simp
      then have "includes_js cs q" using Cons.IH by blast
      then show ?thesis by simp
    qed
  qed
qed

lemma includes_js_occurs_in: "includes_js s q \<longleftrightarrow> occurs_in q s"
  by (simp add: includes_js_iff occurs_in_def)

subsection \<open>Lower case below U+0100\<close>

lemma lower_unit_latin1: "c < 0x100 \<Longrightarrow> lower_unit c = [lower_latin1 c]"
  by (simp add: lower_unit_def lower_latin1_def)

lemma lower_from_latin1: "latin1 s \<Longrightarrow> lower_from before s = map lower_latin1 s"
proof (induction s arbitrary: before)
  case Nil
  then show ?case by simp
next
  case (Cons c cs)
  then have c: "c < 0x100" and cs: "latin1 cs" by (simp_all add: latin1_def)
  from c have "c \<noteq> 0x3A3" by simp
  then show ?case using Cons.IH [OF cs] c by (simp add: lower_unit_latin1)
qed

lemma toLowerCase_latin1: "latin1 s \<Longrightarrow> toLowerCase s = map lower_latin1 s"
  by (simp add: toLowerCase_def lower_from_latin1)

lemma latin1_append: "latin1 (xs @ ys) \<longleftrightarrow> latin1 xs \<and> latin1 ys"
  by (simp add: latin1_def)

lemma latin1_units: "latin1 (units s)"
  by (simp add: latin1_def units_def list_all_iff)

lemma latin1_units_note: "latin1_note (units_note n)"
  by (simp add: latin1_note_def units_note_def latin1_units list_all_iff)

lemma includes_lower_latin1:
  assumes s: "latin1 s" and q: "latin1 q"
  shows "includes_js (toLowerCase s) (toLowerCase q) \<longleftrightarrow> ci_substring q s"
proof
  assume "includes_js (toLowerCase s) (toLowerCase q)"
  then obtain pre post where e: "map lower_latin1 s = pre @ map lower_latin1 q @ post"
    using s q by (auto simp: includes_js_iff toLowerCase_latin1)
  then obtain a r where sa: "s = a @ r" and r: "map lower_latin1 r = map lower_latin1 q @ post"
    by (metis map_eq_append_conv)
  from r obtain u b where ru: "r = u @ b" and u: "map lower_latin1 u = map lower_latin1 q"
    by (metis map_eq_append_conv)
  from sa ru s have "latin1 u" by (simp add: latin1_append)
  then have "toLowerCase u = toLowerCase q"
    using u q by (simp add: toLowerCase_latin1)
  with sa ru show "ci_substring q s"
    unfolding ci_substring_def by blast
next
  assume "ci_substring q s"
  then obtain pre u post where e: "s = pre @ u @ post" and u: "toLowerCase u = toLowerCase q"
    by (auto simp: ci_substring_def)
  from e s have "latin1 u" by (simp add: latin1_append)
  then have "map lower_latin1 u = toLowerCase q"
    using u by (simp add: toLowerCase_latin1)
  moreover have "toLowerCase s = map lower_latin1 pre @ map lower_latin1 u @ map lower_latin1 post"
    using s e by (simp add: toLowerCase_latin1)
  ultimately show "includes_js (toLowerCase s) (toLowerCase q)"
    unfolding includes_js_iff by metis
qed

lemma lowered_matches_latin1:
  assumes "latin1 q" and "latin1_note n"
  shows "lowered_matches q n \<longleftrightarrow> spec_matches q n"
proof -
  have t: "latin1 t" if "t \<in> set (tags n)" for t
    using assms(2) that by (simp add: latin1_note_def list_all_iff)
  have "occurs_in (toLowerCase q) (toLowerCase (title n)) \<longleftrightarrow> ci_substring q (title n)"
    using assms includes_lower_latin1 [of "title n" q]
    by (simp add: latin1_note_def includes_js_occurs_in)
  moreover have "occurs_in (toLowerCase q) (toLowerCase (content n)) \<longleftrightarrow> ci_substring q (content n)"
    using assms includes_lower_latin1 [of "content n" q]
    by (simp add: latin1_note_def includes_js_occurs_in)
  moreover have "occurs_in (toLowerCase q) (toLowerCase t) \<longleftrightarrow> ci_substring q t"
    if "t \<in> set (tags n)" for t
    using assms(1) t [OF that] includes_lower_latin1 [of t q]
    by (simp add: includes_js_occurs_in)
  ultimately show ?thesis
    by (simp add: lowered_matches_def spec_matches_def)
qed

lemma filteredNotes_filter:
  "filteredNotes ns q = (if q = [] then ns else filter (lowered_matches q) ns)"
proof -
  have m: "(includes_js (toLowerCase (title n)) (toLowerCase q)
             \<or> includes_js (toLowerCase (content n)) (toLowerCase q)
             \<or> list_ex (\<lambda>tag. includes_js (toLowerCase tag) (toLowerCase q)) (tags n))
           = lowered_matches q n" for n
    by (simp add: includes_js_occurs_in lowered_matches_def list_ex_iff)
  show ?thesis
    by (simp add: filteredNotes_def Let_def m)
qed

text \<open>
  C7 (as the program has it). The filtered list is the whole collection when the query
  is empty; otherwise it holds exactly the notes for which the lower-cased query occurs
  in the lower-cased title, in the lower-cased content or in some lower-cased tag, each
  string lower-cased as a whole, in the order of the collection (the list is the
  collection with the other notes left out; nothing is ranked or moved). When the query
  and the searched strings of the notes consist of characters below U+0100, these are
  exactly the notes whose title, content or some tag contains the query as a
  case-insensitive substring.
\<close>

theorem filteredNotes_lowered:
  "filteredNotes ns q = (if q = [] then ns else filter (lowered_matches q) ns)
   \<and> subseq (filteredNotes ns q) ns
   \<and> (latin1 q \<and> list_all latin1_note ns \<longrightarrow>
        filteredNotes ns q = (if q = [] then ns else filter (spec_matches q) ns))"
proof -
  have "filter (lowered_matches q) ns = filter (spec_matches q) ns"
    if "latin1 q" and "list_all latin1_note ns"
    using that by (auto simp: list_all_iff lowered_matches_latin1 intro: filter_cong)
  then show ?thesis
    by (simp add: filteredNotes_filter)
qed

text \<open>
  The example of the specification: the query alpha, in any case, finds both notes, and
  the query zzz finds none.
\<close>

lemma filteredNotes_example_alpha:
  "filteredNotes (map units_note example_notes) (units ''ALPHA'') = map units_note example_notes"
  by code_simp

lemma filteredNotes_example_zzz:
  "filteredNotes (map units_note example_notes) (units ''zzz'') = []"
  by code_simp

theorem filteredNotes_lowered_witness:
  "latin1 (units ''ALPHA'') \<and> latin1 (units ''zzz'')
   \<and> list_all latin1_note (map units_note example_notes)
   \<and> filter (spec_matches (units ''ALPHA'')) (map units_note example_notes) = map units_note example_notes
   \<and> filter (spec_matches (units ''zzz'')) (map units_note example_notes) = []
   \<and> filteredNotes (map units_note example_notes) [] = map units_note example_notes"
proof -
  let ?ns = "map units_note example_notes"
  have l: "list_all latin1_note ?ns"
    by (simp add: list_all_iff latin1_units_note)
  have a: "latin1 (units ''ALPHA'')" and z: "latin1 (units ''zzz'')"
    by (rule latin1_units)+
  have na: "units ''ALPHA'' \<noteq> []" and nz: "units ''zzz'' \<noteq> []"
    by (simp_all add: units_def)
  have 1: "filter (spec_matches (units ''ALPHA'')) ?ns = ?ns"
    using filteredNotes_lowered [of ?ns "units ''ALPHA''"] a l na filteredNotes_example_alpha
    by simp
  have 2: "filter (spec_matches (units ''zzz'')) ?ns = []"
    using filteredNotes_lowered [of ?ns "units ''zzz''"] z l nz filteredNotes_example_zzz
    by simp
  have 3: "filteredNotes ?ns [] = ?ns"
    using filteredNotes_lowered [of ?ns "[]"] by simp
  show ?thesis
    using a z l 1 2 3 by simp
qed

text \<open>
  C7 as the specification words it fails on the final sigma. The title of the note
  contains the query character for character, so it contains it as a case-insensitive
  substring; but the title is lower-cased to U+03BF U+03B4 U+03BF U+03C2, with the final
  sigma at its end, and the query to the small sigma U+03C3, so the program leaves the
  note out.
\<close>

lemma toLowerCase_odos: "toLowerCase (title odos_note) = [0x3BF, 0x3B4, 0x3BF, 0x3C2]"
  by (simp add: odos_note_def toLowerCase_def lower_unit_def cased_def case_ignorable_def)

lemma toLowerCase_sigma: "toLowerCase sigma_query = [0x3C3]"
  by (simp add: sigma_query_def toLowerCase_def)

theorem final_sigma_counterexample:
  "odos_note \<in> set [odos_note]
   \<and> sigma_query \<noteq> []
   \<and> occurs_in sigma_query (title odos_note)
   \<and> spec_matches sigma_query odos_note
   \<and> toLowerCase (title odos_note) = [0x3BF, 0x3B4, 0x3BF, 0x3C2]
   \<and> toLowerCase sigma_query = [0x3C3]
   \<and> filteredNotes [odos_note] sigma_query = []"
proof -
  have o: "title odos_note = [0x39F, 0x394, 0x39F] @ sigma_query @ []"
    by (simp add: odos_note_def sigma_query_def)
  then have occ: "occurs_in sigma_query (title odos_note)"
    unfolding occurs_in_def by blast
  from o have "ci_substring sigma_query (title odos_note)"
    unfolding ci_substring_def by blast
  then have sm: "spec_matches sigma_query odos_note"
    by (simp add: spec_matches_def)
  have nq: "sigma_query \<noteq> []"
    by (simp add: sigma_query_def)
  have c: "toLowerCase (content odos_note) = []" and t: "tags odos_note = []"
    by (simp_all add: odos_note_def toLowerCase_def)
  have f: "filteredNotes [odos_note] sigma_query = []"
    by (simp add: filteredNotes_def Let_def nq toLowerCase_odos toLowerCase_sigma c t)
  show ?thesis
    using occ sm nq f toLowerCase_odos toLowerCase_sigma by simp
qed

section \<open>Persisting and loading\<close>

text \<open>
  C8. Persisting a collection and then loading it yields the same collection: the value
  that \<open>load\<close> returns is the collection's own representation, and read at the type
  of the program it is the list that was persisted, with the same identifiers, the same
  fields and the same order.
\<close>

theorem persist_then_load:
  "load (persist ns storage) now = Inr (json_of_notes ns)
   \<and> notes_of_json (json_of_notes ns) = Some ns"
  by (simp add: load_def persist_def JSON_parse_stringify_notes stringify_notes_nonempty
      notes_of_json_of_notes)

theorem persist_then_load_witness:
  "load (persist example_notes Map.empty) 0 = Inr (json_of_notes example_notes)
   \<and> notes_of_json (json_of_notes example_notes) = Some example_notes"
  using persist_then_load [of example_notes Map.empty 0] by simp

section \<open>A failed transform\<close>

text \<open>
  C9. When the call of the text service for summarize, fix_grammar or elaborate fails
  (no credential, no text, a rejected request), the handler reports the failure with an
  alert and leaves the edit buffer as it is: the state after the call is the state the
  component had when the call failed, with the busy flag cleared, so content, title and
  tags are the same before and after.
\<close>

theorem failed_transform_keeps_content:
  assumes "action = summarize \<or> action = fix_grammar \<or> action = elaborate"
    and "snd (processAIAction e svc action (ed_content s0) (selected_text contentRef (ed_content s0))) = Inl err"
  shows "snd (handleAIAction e svc now action contentRef later s0 s1) = Some (s1\<lparr>isProcessingAI := False\<rparr>)
         \<and> map_option ed_content (snd (handleAIAction e svc now action contentRef later s0 s1)) = Some (ed_content s1)
         \<and> map_option ed_title (snd (handleAIAction e svc now action contentRef later s0 s1)) = Some (ed_title s1)
         \<and> map_option ed_tags (snd (handleAIAction e svc now action contentRef later s0 s1)) = Some (ed_tags s1)
         \<and> Alert ''Something went wrong with the AI request.''
             \<in> set (fst (handleAIAction e svc now action contentRef later s0 s1))"
proof -
  obtain ev where "processAIAction e svc action (ed_content s0) (selected_text contentRef (ed_content s0)) = (ev, Inl err)"
    using assms(2) by (cases "processAIAction e svc action (ed_content s0) (selected_text contentRef (ed_content s0))") auto
  from handleAIAction_failed [OF assms(1) this] show ?thesis by simp
qed

lemma trim_some_text: "trim ''some text'' = ''some text''"
  by (simp add: trim_def is_space_def)

lemma rejected_example:
  "snd (processAIAction \<lparr>API_KEY = Some ''k''\<rparr> (\<lambda>k r. Inl (Rejected ''503'')) summarize ''some text'' []) = Inl (Rejected ''503'')"
  by (simp add: processAIAction_def getAIClient_def trim_some_text Let_def)

theorem failed_transform_keeps_content_witness:
  "map_option ed_content
     (snd (handleAIAction \<lparr>API_KEY = Some ''k''\<rparr> (\<lambda>k r. Inl (Rejected ''503'')) 5 summarize None
             \<lparr>selectionStart = 0, selectionEnd = 0\<rparr>
             (mount 0 (example_note\<lparr>content := ''some text''\<rparr>))
             (handleAIAction_begin (mount 0 (example_note\<lparr>content := ''some text''\<rparr>)))))
   = Some ''some text''"
proof -
  have c: "ed_content (mount 0 (example_note\<lparr>content := ''some text''\<rparr>)) = ''some text''"
    by (simp add: mount_def schedule_def)
  have b: "ed_content (handleAIAction_begin (mount 0 (example_note\<lparr>content := ''some text''\<rparr>))) = ''some text''"
    by (simp add: handleAIAction_begin_def mount_def schedule_def)
  have s: "selected_text None ''some text'' = []" by (simp add: selected_text_def)
  show ?thesis
    using failed_transform_keeps_content [of summarize "\<lparr>API_KEY = Some ''k''\<rparr>" "\<lambda>k r. Inl (Rejected ''503'')"
        "mount 0 (example_note\<lparr>content := ''some text''\<rparr>)" None "Rejected ''503''" 5
        "\<lparr>selectionStart = 0, selectionEnd = 0\<rparr>"
        "handleAIAction_begin (mount 0 (example_note\<lparr>content := ''some text''\<rparr>))"]
      rejected_example
    by (simp add: c b s)
qed

section \<open>Blank text\<close>

text \<open>
  C10 (as the program has it). For summarize, fix_grammar and elaborate: when the text
  to process (the selected span, or the whole content when nothing is selected) is empty
  or only white space, \<open>processAIAction\<close> throws before any request is made and the edit
  buffer is not changed. The error is \<^verbatim>\<open>No text to process\<close> when the credential is
  there; when it is missing, the client is built first and the error is the one that
  names the missing key.
\<close>

theorem blank_text_is_refused:
  assumes "action = summarize \<or> action = fix_grammar \<or> action = elaborate"
    and "trim (if selected_text contentRef (ed_content s0) \<noteq> [] then selected_text contentRef (ed_content s0)
               else ed_content s0) = []"
  shows "processAIAction e svc action (ed_content s0) (selected_text contentRef (ed_content s0)) =
           (if API_KEY e = None \<or> API_KEY e = Some []
            then ([ConsoleError ''API Key not found in environment variables''],
                  Inl (Error ''API Key is missing. Please ensure process.env.API_KEY is available.''))
            else ([], Inl (Error ''No text to process'')))
         \<and> (\<forall>r. Request r \<notin> set (fst (handleAIAction e svc now action contentRef later s0 s1)))
         \<and> snd (handleAIAction e svc now action contentRef later s0 s1) = Some (s1\<lparr>isProcessingAI := False\<rparr>)
         \<and> map_option ed_content (snd (handleAIAction e svc now action contentRef later s0 s1))
             = Some (ed_content s1)"
proof -
  note p = processAIAction_blank [OF assms(2), of e svc action]
  obtain ev err where q: "processAIAction e svc action (ed_content s0) (selected_text contentRef (ed_content s0)) = (ev, Inl err)"
      and ev: "\<forall>r. Request r \<notin> set ev"
    using p by (cases "API_KEY e = None \<or> API_KEY e = Some []") auto
  from handleAIAction_failed [OF assms(1) q] ev p show ?thesis by auto
qed

theorem blank_text_is_refused_witness:
  "processAIAction \<lparr>API_KEY = Some ''k''\<rparr> (\<lambda>k r. Inr (Some ''answer'')) elaborate ''ab cdef''
       (selected_text (Some \<lparr>selectionStart = 2, selectionEnd = 3\<rparr>) ''ab cdef'')
     = ([], Inl (Error ''No text to process''))
   \<and> map_option ed_content
        (snd (handleAIAction \<lparr>API_KEY = Some ''k''\<rparr> (\<lambda>k r. Inr (Some ''answer'')) 5 elaborate
                (Some \<lparr>selectionStart = 2, selectionEnd = 3\<rparr>) \<lparr>selectionStart = 2, selectionEnd = 3\<rparr>
                (mount 0 (example_note\<lparr>content := ''ab cdef''\<rparr>))
                (handleAIAction_begin (mount 0 (example_note\<lparr>content := ''ab cdef''\<rparr>)))))
     = Some ''ab cdef''"
proof -
  have c: "ed_content (mount 0 (example_note\<lparr>content := ''ab cdef''\<rparr>)) = ''ab cdef''"
    by (simp add: mount_def schedule_def)
  have b: "ed_content (handleAIAction_begin (mount 0 (example_note\<lparr>content := ''ab cdef''\<rparr>))) = ''ab cdef''"
    by (simp add: handleAIAction_begin_def mount_def schedule_def)
  have s: "selected_text (Some \<lparr>selectionStart = 2, selectionEnd = 3\<rparr>) ''ab cdef'' = '' ''"
    by (simp add: selected_text_def substring_def)
  have t: "trim '' '' = []"
    by (simp add: trim_def is_space_def)
  show ?thesis
    using blank_text_is_refused [of elaborate "Some \<lparr>selectionStart = 2, selectionEnd = 3\<rparr>"
        "mount 0 (example_note\<lparr>content := ''ab cdef''\<rparr>)" "\<lparr>API_KEY = Some ''k''\<rparr>"
        "\<lambda>k r. Inr (Some ''answer'')" 5 "\<lparr>selectionStart = 2, selectionEnd = 3\<rparr>"
        "handleAIAction_begin (mount 0 (example_note\<lparr>content := ''ab cdef''\<rparr>))"]
    by (simp add: c b s t)
qed

text \<open>
  The claim as stated fails without a credential: on blank content the error names the
  missing key, not the missing text.
\<close>

theorem blank_text_counterexample:
  "processAIAction \<lparr>API_KEY = None\<rparr> (\<lambda>k r. Inr (Some ''answer'')) summarize ''   '' [] =
     ([ConsoleError ''API Key not found in environment variables''],
      Inl (Error ''API Key is missing. Please ensure process.env.API_KEY is available.''))"
  by (simp add: processAIAction_def getAIClient_def)

end
